theory Spec2Isabelle
  imports Complex_Main "HOL-Library.Sublist" "HOL-Library.Log_Nat"
begin

section \<open>Common conventions\<close>

text \<open>
  The Go sources under verification are the schedulers of package \<open>schedulers\<close>
  (\<open>binpacksortedwatts.go\<close>, \<open>bpswClassMapWatts.go\<close>, \<open>MaxGreedyMins.go\<close>,
  \<open>proactiveclusterwidecappingranked.go\<close>, \<open>schedPolicy.go\<close>) and the RAPL daemon
  (\<open>capNode\<close>, \<open>maxPower\<close>, \<open>capZone\<close>, \<open>powercapEndpoint\<close>).

  A Go run-time panic (an index or a slice bound out of range, the close of a closed
  channel) and \<open>log.Fatal\<close> end the process. Both are values of the type \<open>failure\<close>, and
  every function that can meet one returns an \<open>outcome\<close>: \<open>Panic\<close> with the failure, or
  \<open>Ok\<close> with its result.
\<close>

datatype failure =
    IndexOutOfRange int nat
  | SliceBoundsOutOfRange nat nat
  | CloseOfClosedChannel
  | Fatal string

datatype 'a outcome = Panic failure | Ok 'a

text \<open>Go's \<open>xs[i]\<close> for a slice \<open>xs\<close> and an \<open>int\<close> index: a panic outside \<open>0 \<le> i < len(xs)\<close>.\<close>

definition index_at :: "'a list \<Rightarrow> int \<Rightarrow> 'a outcome" where
  "index_at xs i =
     (if 0 \<le> i \<and> i < int (length xs) then Ok (xs ! nat i)
      else Panic (IndexOutOfRange i (length xs)))"

section \<open>Policy switching: \<open>baseSchedPolicyState.nextPolicy\<close> (schedPolicy.go)\<close>

text \<open>
  An entry of the package-level slice \<open>schedPoliciesToSwitch\<close>: the policy's name
  \<open>spName\<close> and the value \<open>sp.GetInfo().taskDist\<close> of its policy. The slice itself,
  the constant \<open>bp\<close> and \<open>def.GetTaskDistributionInWindow\<close> are declared outside the
  verified files, so \<open>nextPolicy\<close> takes the slice, the constant and the pair
  \<open>(taskDist, err)\<close> returned by the classifier as arguments. The \<open>float64\<close> value
  \<open>taskDist\<close> is a real number here: \<open>nextPolicy\<close> only compares such values and
  subtracts them.
\<close>

record schedPolicyEntry =
  spName :: string
  taskDist :: real

text \<open>
  The result of \<open>def.GetTaskDistributionInWindow\<close>: the distribution, and whether the
  error is \<open>nil\<close>. Go returns both values also when the error is set.
\<close>

record taskDistResult =
  td_dist :: real
  td_err :: "string option"

text \<open>
  The binary search loop of \<open>nextPolicy\<close>, \<open>for low <= high\<close>. It returns
  \<open>switchToPolicyName\<close> (still empty when no entry equals \<open>taskDist\<close>) and the final
  \<open>low\<close> and \<open>high\<close>. \<open>nextPolicy_closest\<close> is the block guarded by
  \<open>switchToPolicyName == ""\<close> that follows the loop.
\<close>

function nextPolicy_search ::
  "schedPolicyEntry list \<Rightarrow> real \<Rightarrow> int \<Rightarrow> int \<Rightarrow> (string \<times> int \<times> int) outcome" where
  "nextPolicy_search sps t low high =
     (if low \<le> high then
        (let mid = (low + high) div 2 in
         case index_at sps mid of
           Panic e \<Rightarrow> Panic e
         | Ok p \<Rightarrow>
             if t < taskDist p then nextPolicy_search sps t low (mid - 1)
             else if t > taskDist p then nextPolicy_search sps t (mid + 1) high
             else Ok (spName p, low, high))
      else Ok ('''', low, high))"
  by pat_completeness auto
termination
  by (relation "measure (\<lambda>(sps, t, low, high). nat (high + 1 - low))") auto

declare nextPolicy_search.simps [simp del]

definition nextPolicy_closest ::
  "schedPolicyEntry list \<Rightarrow> real \<Rightarrow> int \<Rightarrow> int \<Rightarrow> (string \<times> real) outcome" where
  "nextPolicy_closest sps t low high =
     (case index_at sps low of
        Panic e \<Rightarrow> Panic e
      | Ok pl \<Rightarrow>
          (case index_at sps high of
             Panic e \<Rightarrow> Panic e
           | Ok ph \<Rightarrow>
               (let lowDiff = taskDist pl - t;
                    highDiff = t - taskDist ph
                in if lowDiff > highDiff then Ok (spName ph, t)
                   else if highDiff > lowDiff then Ok (spName pl, t)
                   else Ok (spName ph, t))))"

definition nextPolicy ::
  "string \<Rightarrow> schedPolicyEntry list \<Rightarrow> taskDistResult \<Rightarrow> (string \<times> real) outcome" where
  "nextPolicy bp sps r =
     (let t = td_dist r in
      if td_err r \<noteq> None then Ok (bp, t)
      else
        (case index_at sps 0 of
           Panic e \<Rightarrow> Panic e
         | Ok first_sp \<Rightarrow>
             (case index_at sps (int (length sps) - 1) of
                Panic e \<Rightarrow> Panic e
              | Ok last_sp \<Rightarrow>
                  if t < taskDist first_sp then Ok (spName first_sp, t)
                  else if t > taskDist last_sp then Ok (spName last_sp, t)
                  else
                    (case nextPolicy_search sps t 0 (int (length sps) - 1) of
                       Panic e \<Rightarrow> Panic e
                     | Ok (name, low, high) \<Rightarrow>
                         if name = '''' then nextPolicy_closest sps t low high
                         else Ok (name, t)))))"


section \<open>The RAPL daemon: \<open>capNode\<close>, \<open>maxPower\<close>, \<open>capZone\<close>, \<open>powercapEndpoint\<close>\<close>

text \<open>
  A \<open>uint64\<close> is an integer in \<open>0 \<le> n < 2^64\<close>: \<open>ParseUint\<close> returns no other value, and
  the conversion from \<open>float64\<close> is defined for no other value.
\<close>

subsection \<open>Strings: \<open>strings.Split\<close>, \<open>strings.TrimSpace\<close>, \<open>strconv.ParseUint\<close>, \<open>strconv.FormatUint\<close>\<close>

text \<open>
  \<open>strings.Split(s, ":")\<close>: the pieces of \<open>s\<close> between the separators; the result always
  has one element more than \<open>s\<close> has separators.
\<close>

fun split_on :: "char \<Rightarrow> string \<Rightarrow> string list" where
  "split_on c [] = [[]]"
| "split_on c (x # xs) =
     (let r = split_on c xs in
      if x = c then [] # r else (x # hd r) # tl r)"

text \<open>
  \<open>strings.TrimSpace\<close> on a byte string: leading and trailing tab, line feed, vertical
  tab, form feed, carriage return and space are removed.
\<close>

definition is_space :: "char \<Rightarrow> bool" where
  "is_space c = (of_char c \<in> {9, 10, 11, 12, 13, 32 :: int})"

definition TrimSpace :: "string \<Rightarrow> string" where
  "TrimSpace s = rev (dropWhile is_space (rev (dropWhile is_space s)))"

definition is_digit :: "char \<Rightarrow> bool" where
  "is_digit c = (48 \<le> (of_char c :: int) \<and> (of_char c :: int) \<le> 57)"

definition digits_value :: "string \<Rightarrow> int" where
  "digits_value s = foldl (\<lambda>n c. 10 * n + (of_char c - 48)) 0 s"

text \<open>
  \<open>strconv.ParseUint(s, 10, 64)\<close>: a syntax error for the empty string and for any
  character that is not a decimal digit, a range error for a value of \<open>2^64\<close> or more.
\<close>

definition ParseUint :: "string \<Rightarrow> int option" where
  "ParseUint s =
     (if s = [] \<or> \<not> list_all is_digit s then None
      else if digits_value s < 2 ^ 64 then Some (digits_value s) else None)"

function FormatUint :: "int \<Rightarrow> string" where
  "FormatUint n =
     (if n < 10 then [''0123456789'' ! nat n]
      else FormatUint (n div 10) @ [''0123456789'' ! nat (n mod 10)])"
  by pat_completeness auto
termination
  by (relation "measure nat") auto

declare FormatUint.simps [simp del]

subsection \<open>\<open>float64\<close> arithmetic\<close>

text \<open>
  \<open>capNode\<close> computes the cap in \<open>float64\<close>. A finite \<open>float64\<close> is a rational number,
  and each IEEE 754 operation returns the exact result rounded to the nearest value with
  a 53-bit significand, ties to the even significand. \<open>binary64\<close> is that rounding. The
  smallest exponent is that of the subnormal numbers; the overflow to infinity is not
  modelled, no value of \<open>capNode\<close> comes near \<open>2^1024\<close>.
\<close>

definition pow2 :: "int \<Rightarrow> rat" where
  "pow2 e = (if 0 \<le> e then 2 ^ nat e else 1 / 2 ^ nat (- e))"

text \<open>For \<open>x > 0\<close>, the integer \<open>e\<close> with \<open>2^e \<le> x < 2^(e+1)\<close>.\<close>

definition floor_log2 :: "rat \<Rightarrow> int" where
  "floor_log2 x =
     (let (p, q) = quotient_of x;
          k = bitlen p - bitlen q
      in if pow2 k \<le> x then k else k - 1)"

definition round_half_even :: "rat \<Rightarrow> int" where
  "round_half_even x =
     (let f = \<lfloor>x\<rfloor>; d = x - of_int f
      in if d < 1 / 2 then f
         else if d > 1 / 2 then f + 1
         else if even f then f else f + 1)"

definition binary64 :: "rat \<Rightarrow> rat" where
  "binary64 x =
     (if x = 0 then 0
      else
        (let e = max (floor_log2 \<bar>x\<bar> - 52) (- 1074);
             m = round_half_even (\<bar>x\<bar> / pow2 e)
         in sgn x * of_int m * pow2 e))"

text \<open>
  The conversion \<open>uint64(f)\<close> of a \<open>float64\<close>: the integer part when it fits; the Go
  specification leaves the result open when it does not (\<open>None\<close> here).
\<close>

definition uint64_of_float64 :: "rat \<Rightarrow> int option" where
  "uint64_of_float64 f =
     (if - 1 < f \<and> f < 2 ^ 64 then Some (if f < 0 then \<lceil>f\<rceil> else \<lfloor>f\<rfloor>) else None)"

text \<open>
  Line 51 of \<open>capNode\<close>:
  \<open>uint64(math.Ceil(float64(maxPower) * (float64(percentage) / 100)))\<close>.
\<close>

definition powercap_of :: "int \<Rightarrow> int \<Rightarrow> int option" where
  "powercap_of maxPower percentage =
     uint64_of_float64
       (of_int \<lceil>binary64 (binary64 (of_int maxPower) * binary64 (binary64 (of_int percentage) / 100))\<rceil>)"

subsection \<open>The powercap file tree\<close>

text \<open>
  The part of the file system that \<open>capNode base\<close> touches: the listing of \<open>base\<close>
  (\<open>ioutil.ReadDir\<close>, sorted by name, or an error), and the regular files
  \<open>base/<entry>/<file>\<close>, addressed by entry and file name, with their content (each
  file once). A file in \<open>read_only\<close> cannot be written.
\<close>

record sysfs =
  listing :: "string list option"
  regular_files :: "((string \<times> string) \<times> string) list"
  read_only :: "(string \<times> string) list"

definition content :: "sysfs \<Rightarrow> string \<times> string \<Rightarrow> string option" where
  "content fs f = map_of (regular_files fs) f"

text \<open>\<open>ioutil.WriteFile\<close> on an existing file replaces its content.\<close>

definition WriteFile :: "sysfs \<Rightarrow> string \<times> string \<Rightarrow> string \<Rightarrow> sysfs" where
  "WriteFile fs f text = fs\<lparr>regular_files :=
        map (\<lambda>(g, old). if g = f then (g, text) else (g, old)) (regular_files fs)\<rparr>"

datatype rapl_error =
    InvalidPercentage int
  | ReadDirError
  | ReadFileError
  | ParseUintError
  | NotExist
  | WriteFileError
  | ConversionUnspecified

definition raplPrefixCPU :: string where
  "raplPrefixCPU = ''intel-rapl''"

definition maxPowerFileLongWindow :: string where
  "maxPowerFileLongWindow = ''constraint_0_max_power_uw''"

definition powerLimitFileLongWindow :: string where
  "powerLimitFileLongWindow = ''constraint_0_power_limit_uw''"

definition maxPower :: "sysfs \<Rightarrow> string \<times> string \<Rightarrow> rapl_error + int" where
  "maxPower fs maxFile =
     (case content fs maxFile of
        None \<Rightarrow> Inl ReadFileError
      | Some text \<Rightarrow>
          (case ParseUint (TrimSpace text) of
             None \<Rightarrow> Inl ParseUintError
           | Some maxPoweruW \<Rightarrow> Inr maxPoweruW))"

definition capZone :: "sysfs \<Rightarrow> string \<times> string \<Rightarrow> int \<Rightarrow> rapl_error + sysfs" where
  "capZone fs limitFile v =
     (if content fs limitFile = None then Inl NotExist
      else if limitFile \<in> set (read_only fs) then Inl WriteFileError
      else Inr (WriteFile fs limitFile (FormatUint v)))"

text \<open>
  The loop of \<open>capNode\<close> over the entries of \<open>base\<close>. An error of \<open>maxPower\<close> or
  \<open>capZone\<close> is printed and the loop goes on with the next entry. The loop itself
  returns no error; the model stops with \<open>ConversionUnspecified\<close> only where Go does not
  fix the value that is written.
\<close>

fun capNode_files :: "sysfs \<Rightarrow> int \<Rightarrow> string list \<Rightarrow> rapl_error + sysfs" where
  "capNode_files fs percentage [] = Inr fs"
| "capNode_files fs percentage (name # files) =
     (let fields = split_on CHR '':'' name in
      if length fields \<noteq> 2 then capNode_files fs percentage files
      else if fields ! 0 = raplPrefixCPU then
        (case maxPower fs (name, maxPowerFileLongWindow) of
           Inl e \<Rightarrow> capNode_files fs percentage files
         | Inr m \<Rightarrow>
             (case powercap_of m percentage of
                None \<Rightarrow> Inl ConversionUnspecified
              | Some powercap \<Rightarrow>
                  (case capZone fs (name, powerLimitFileLongWindow) powercap of
                     Inl e \<Rightarrow> capNode_files fs percentage files
                   | Inr fs' \<Rightarrow> capNode_files fs' percentage files)))
      else capNode_files fs percentage files)"

text \<open>\<open>capNode\<close> returns its error (\<open>None\<close> for \<open>nil\<close>) and the file tree it leaves.\<close>

definition capNode :: "sysfs \<Rightarrow> int \<Rightarrow> rapl_error option \<times> sysfs" where
  "capNode fs percentage =
     (if percentage \<le> 0 \<or> percentage > 100 then (Some (InvalidPercentage percentage), fs)
      else
        (case listing fs of
           None \<Rightarrow> (Some ReadDirError, fs)
         | Some files \<Rightarrow>
             (case capNode_files fs percentage files of
                Inl e \<Rightarrow> (Some e, fs)
              | Inr fs' \<Rightarrow> (None, fs'))))"

text \<open>
  \<open>powercapEndpoint\<close>. The request is the outcome of decoding its body into \<open>Cap\<close>; the
  response is the status code and the text written.
\<close>

datatype payload = DecodeError | Cap int

datatype response_text =
    ErrorParsingPayload
  | ErrorText rapl_error
  | CappedNodeAt int

record response =
  status_code :: nat
  body :: response_text

definition powercapEndpoint :: "sysfs \<Rightarrow> payload \<Rightarrow> response \<times> sysfs" where
  "powercapEndpoint fs r =
     (case r of
        DecodeError \<Rightarrow> (\<lparr>status_code = 400, body = ErrorParsingPayload\<rparr>, fs)
      | Cap percentage \<Rightarrow>
          (case capNode fs percentage of
             (Some e, fs') \<Rightarrow> (\<lparr>status_code = 400, body = ErrorText e\<rparr>, fs')
           | (None, fs') \<Rightarrow> (\<lparr>status_code = 200, body = CappedNodeAt percentage\<rparr>, fs')))"

text \<open>
  The zones that \<open>capNode\<close> caps: the entry name has the form \<open>intel-rapl:X\<close>, and its
  power-limit file exists and can be written.
\<close>

definition zone_ok :: "sysfs \<Rightarrow> string \<Rightarrow> bool" where
  "zone_ok fs name =
     (length (split_on CHR '':'' name) = 2 \<and> split_on CHR '':'' name ! 0 = raplPrefixCPU \<and>
      content fs (name, powerLimitFileLongWindow) \<noteq> None \<and>
      (name, powerLimitFileLongWindow) \<notin> set (read_only fs))"

text \<open>
  The values within one of the exact ceiling of \<open>M * N / 100\<close>; one above it only where
  \<open>M * N / 100\<close> is an integer.
\<close>

definition near_ceiling :: "int \<Rightarrow> int \<Rightarrow> int \<Rightarrow> bool" where
  "near_ceiling M N v =
     (v = \<lceil>(of_int (M * N) :: rat) / 100\<rceil> \<or>
      (100 dvd M * N \<and> v = \<lceil>(of_int (M * N) :: rat) / 100\<rceil> + 1))"

text \<open>
  A file tree with the single zone \<open>intel-rapl:0\<close>, whose maximum-power file holds
  \<open>text\<close> and whose power-limit file holds \<open>0\<close>; the sub-zone \<open>intel-rapl:0:0\<close> is listed
  as well.
\<close>

definition sysfs_one_zone :: "string \<Rightarrow> sysfs" where
  "sysfs_one_zone text =
     \<lparr>listing = Some [''intel-rapl:0'', ''intel-rapl:0:0''],
      regular_files = [((''intel-rapl:0'', maxPowerFileLongWindow), text),
                       ((''intel-rapl:0'', powerLimitFileLongWindow), ''0'')],
      read_only = []\<rparr>"

section \<open>Schedulers: tasks, offers and driver calls\<close>

text \<open>
  The resource quantities of tasks and offers are \<open>float64\<close> values. The schedulers only
  add them and compare them, so they are values of an arbitrary type \<open>'n\<close> with \<open>0\<close>,
  \<open>+\<close> and \<open>\<le>\<close>; no law of arithmetic is assumed for \<open>'n\<close>, and what is proved holds for
  \<open>float64\<close> addition and comparison as it holds for the real numbers.

  \<open>def.Task\<close>. The field \<open>Instances\<close> is a pointer \<open>*int\<close>: the copies of a task that
  the loops make, and the stale copies that a removal leaves in the backing array of
  \<open>s.tasks\<close>, share one counter. \<open>Instances\<close> is therefore the address of the counter, and
  the counters live in the field \<open>instances\<close> of the scheduler. Every task points to a
  counter (no \<open>nil\<close> pointer).
\<close>

record 'n Task =
  Name :: string
  CPU :: 'n
  RAM :: 'n
  Watts :: 'n
  Image :: string
  CMD :: string
  Instances :: nat
  Host :: string
  TaskID :: string
  ClassToWatts :: "(string \<times> 'n) list"

text \<open>
  \<open>mesos.Offer\<close>, reduced to the fields the schedulers read: identifiers, host name, text
  attributes and scalar resources, each by name.
\<close>

record 'n Offer =
  offer_id :: string
  slave_id :: string
  hostname :: string
  attributes :: "(string \<times> string) list"
  resources :: "(string \<times> 'n) list"

text \<open>
  Modelled from the spec: \<open>OfferAgg\<close> (package \<open>offerUtils\<close>, not among the verified
  files) "sums scalar resources by name (unknown names ignored)" and returns the triple
  \<open>(cpus, mem, watts)\<close>.
\<close>

definition sum_named :: "string \<Rightarrow> (string \<times> 'n::{plus,zero}) list \<Rightarrow> 'n" where
  "sum_named name rs = foldl (\<lambda>acc (n, v). if n = name then acc + v else acc) 0 rs"

definition OfferAgg :: "'n::{plus,zero} Offer \<Rightarrow> 'n \<times> 'n \<times> 'n" where
  "OfferAgg offer =
     (sum_named ''cpus'' (resources offer),
      sum_named ''mem'' (resources offer),
      sum_named ''watts'' (resources offer))"

text \<open>\<open>mesos.TaskInfo\<close> as the \<open>newTask\<close> methods fill it.\<close>

record 'n TaskInfo =
  ti_name :: string
  ti_task_id :: string
  ti_slave_id :: string
  ti_resources :: "(string \<times> 'n) list"
  ti_command :: string
  ti_image :: string

text \<open>
  The filters of \<open>mesosUtils.go\<close> (\<open>defaultFilter\<close> and \<open>longFilter\<close> in the older
  schedulers) and the two calls that the schedulers make on the driver.
\<close>

datatype filters = DefaultFilter | LongFilter

fun RefuseSeconds :: "filters \<Rightarrow> nat" where
  "RefuseSeconds DefaultFilter = 1"
| "RefuseSeconds LongFilter = 1000"

datatype 'n driver_call =
    LaunchTasks string "'n TaskInfo list" filters
  | DeclineOffer string filters

definition FormatInt :: "int \<Rightarrow> string" where
  "FormatInt n = (if n < 0 then CHR ''-'' # FormatUint (- n) else FormatUint n)"

text \<open>
  The state that the scheduler structs share. The slice \<open>s.tasks\<close> is its backing array
  \<open>tasks_array\<close> and its length \<open>tasks_len\<close>; the capacity is the length of the array, which
  no scheduler grows. The channels \<open>Shutdown\<close> and \<open>Done\<close> are only ever closed and polled,
  so each is the flag "closed". \<open>running\<close> maps an agent to the names of its tasks. The
  fields \<open>metrics\<close> and \<open>PCPLog\<close>, which no verified function uses, are left out, as is
  all logging.
\<close>

record 'n scheduler =
  tasksCreated :: int
  tasksRunning :: int
  tasks_array :: "'n Task list"
  tasks_len :: nat
  instances :: "nat \<Rightarrow> int"
  running :: "string \<Rightarrow> string set"
  RecordPCP :: bool
  Shutdown :: bool
  Done :: bool

text \<open>The pending queue: the elements of \<open>s.tasks\<close>.\<close>

definition tasks :: "('n, 'z) scheduler_scheme \<Rightarrow> 'n Task list" where
  "tasks s = take (tasks_len s) (tasks_array s)"

text \<open>
  \<open>close(s.Shutdown)\<close>; closing a closed channel is a run-time panic.
\<close>

definition close_Shutdown :: "('n, 'z) scheduler_scheme \<Rightarrow> ('n, 'z) scheduler_scheme outcome" where
  "close_Shutdown s = (if Shutdown s then Panic CloseOfClosedChannel
                       else Ok (s\<lparr>Shutdown := True\<rparr>))"

text \<open>
  \<open>s.tasks = append(s.tasks[:i], s.tasks[i+1:]...)\<close>. The slice expression
  \<open>s.tasks[:i]\<close> needs \<open>i \<le> cap(s.tasks)\<close> and \<open>s.tasks[i+1:]\<close> needs
  \<open>i + 1 \<le> len(s.tasks)\<close>; outside, a panic. The result fits the capacity, so \<open>append\<close>
  moves the elements behind \<open>i\<close> one place down inside the same array and the slice
  gets one element shorter; the array keeps its old last element.
\<close>

definition remove_by_append ::
  "('n, 'z) scheduler_scheme \<Rightarrow> nat \<Rightarrow> ('n, 'z) scheduler_scheme outcome" where
  "remove_by_append s i =
     (if length (tasks_array s) < i then Panic (SliceBoundsOutOfRange i (length (tasks_array s)))
      else if tasks_len s < i + 1 then Panic (SliceBoundsOutOfRange (i + 1) (tasks_len s))
      else Ok (s\<lparr>tasks_array :=
                   take i (tasks_array s) @
                   drop (i + 1) (take (tasks_len s) (tasks_array s)) @
                   drop (tasks_len s - 1) (tasks_array s),
                 tasks_len := tasks_len s - 1\<rparr>))"

text \<open>
  Lines 180 to 188 of \<open>binpacksortedwatts.go\<close>, the same in every scheduler that removes
  by \<open>append\<close>: a task without instances left is removed, and when the queue is empty
  \<open>Shutdown\<close> is closed.
\<close>

definition remove_if_scheduled ::
  "('n, 'z) scheduler_scheme \<Rightarrow> nat \<Rightarrow> 'n Task \<Rightarrow> ('n, 'z) scheduler_scheme outcome" where
  "remove_if_scheduled s i task =
     (if instances s (Instances task) \<le> 0 then
        (case remove_by_append s i of
           Panic e \<Rightarrow> Panic e
         | Ok s' \<Rightarrow> if tasks_len s' \<le> 0 then close_Shutdown s' else Ok s')
      else Ok s)"

definition decrement_Instances :: "('n, 'z) scheduler_scheme \<Rightarrow> 'n Task \<Rightarrow> ('n, 'z) scheduler_scheme" where
  "decrement_Instances s task =
     s\<lparr>instances := (instances s)(Instances task := instances s (Instances task) - 1)\<rparr>"

text \<open>\<open>strings.HasPrefix(s, p)\<close> is \<open>prefix p s\<close>.\<close>

section \<open>\<open>BinPackSortedWatts\<close> and \<open>BPSWClassMapWatts\<close>\<close>

text \<open>
  The two structs have the same fields: the shared state and \<open>ignoreWatts\<close>.
\<close>

record 'n BinPackSortedWatts = "'n scheduler" +
  ignoreWatts :: bool

text \<open>
  \<open>sort.Sort(def.WattsSorter(tasks))\<close> sorts in place with an algorithm that is not
  stable, and \<open>WattsSorter\<close> is declared outside the verified files; the constructor
  takes the sorting function \<open>srt\<close> as an argument, and the counters \<open>cnt\<close> its tasks
  point to.
\<close>

definition NewBinPackSortedWatts ::
  "('n Task list \<Rightarrow> 'n Task list) \<Rightarrow> (nat \<Rightarrow> int) \<Rightarrow> 'n Task list \<Rightarrow> bool \<Rightarrow> 'n BinPackSortedWatts" where
  "NewBinPackSortedWatts srt cnt ts ignore =
     \<lparr>tasksCreated = 0, tasksRunning = 0, tasks_array = srt ts, tasks_len = length (srt ts),
      instances = cnt, running = (\<lambda>agent. {}), RecordPCP = False,
      Shutdown = False, Done = False, ignoreWatts = ignore\<rparr>"

definition newTask ::
  "('n, 'z) BinPackSortedWatts_scheme \<Rightarrow> 'n Offer \<Rightarrow> 'n Task \<Rightarrow>
     'n TaskInfo \<times> ('n, 'z) BinPackSortedWatts_scheme" where
  "newTask s offer task =
     (let taskName = Name task @ ''-'' @ FormatInt (instances s (Instances task));
          s' = s\<lparr>tasksCreated := tasksCreated s + 1,
                 RecordPCP := True,
                 running := (running s)
                   (slave_id offer := insert taskName (running s (slave_id offer)))\<rparr>;
          res = [(''cpus'', CPU task), (''mem'', RAM task)] @
                (if ignoreWatts s then [] else [(''watts'', Watts task)])
      in (\<lparr>ti_name = taskName, ti_task_id = ''electron-'' @ taskName,
           ti_slave_id = slave_id offer, ti_resources = res,
           ti_command = CMD task, ti_image = Image task\<rparr>, s'))"

text \<open>The variables of one pass of the loop over the offers.\<close>

record 'n offer_vars =
  launch :: "'n TaskInfo list"
  taken :: bool
  totalWatts :: 'n
  totalCPU :: 'n
  totalRAM :: 'n

definition offer_vars_init :: "'n::zero offer_vars" where
  "offer_vars_init = \<lparr>launch = [], taken = False, totalWatts = 0, totalCPU = 0, totalRAM = 0\<rparr>"

text \<open>
  The test "does the task fit" (lines 165 to 167); \<open>w\<close> is the watts read for the task:
  \<open>task.Watts\<close> in \<open>BinPackSortedWatts\<close>, \<open>task.ClassToWatts[nodeClass]\<close> in
  \<open>BPSWClassMapWatts\<close>.
\<close>

definition binpack_fits ::
  "bool \<Rightarrow> 'n::{plus,ord} \<times> 'n \<times> 'n \<Rightarrow> 'n offer_vars \<Rightarrow> 'n Task \<Rightarrow> 'n \<Rightarrow> bool" where
  "binpack_fits ignore agg v task w =
     (case agg of (offer_cpu, offer_ram, offer_watts) \<Rightarrow>
        (ignore \<or> offer_watts \<ge> totalWatts v + w) \<and>
        offer_cpu \<ge> totalCPU v + CPU task \<and>
        offer_ram \<ge> totalRAM v + RAM task)"

text \<open>The body of the branch taken when the task fits (lines 169 to 188).\<close>

definition binpack_place ::
  "'n::plus Offer \<Rightarrow> nat \<Rightarrow> 'n Task \<Rightarrow> 'n \<Rightarrow> 'n BinPackSortedWatts \<times> 'n offer_vars \<Rightarrow>
     ('n BinPackSortedWatts \<times> 'n offer_vars) outcome" where
  "binpack_place offer i task w sv =
     (case sv of (s, v) \<Rightarrow>
        (let v1 = v\<lparr>taken := True,
                     totalWatts := totalWatts v + w,
                     totalCPU := totalCPU v + CPU task,
                     totalRAM := totalRAM v + RAM task\<rparr>;
             (ti, s1) = newTask s offer task;
             v2 = v1\<lparr>launch := launch v1 @ [ti]\<rparr>;
             s2 = decrement_Instances s1 task
         in case remove_if_scheduled s2 i task of
              Panic e \<Rightarrow> Panic e
            | Ok s3 \<Rightarrow> Ok (s3, v2)))"

text \<open>The loop \<open>for *task.Instances > 0\<close> (lines 163 to 192) for the copy \<open>task\<close>.\<close>

function binpack_instances ::
  "'n::{plus,ord} \<times> 'n \<times> 'n \<Rightarrow> 'n Offer \<Rightarrow> nat \<Rightarrow> 'n Task \<Rightarrow> 'n \<Rightarrow>
     'n BinPackSortedWatts \<times> 'n offer_vars \<Rightarrow> ('n BinPackSortedWatts \<times> 'n offer_vars) outcome" where
  "binpack_instances agg offer i task w sv =
     (if instances (fst sv) (Instances task) > 0 then
        (if binpack_fits (ignoreWatts (fst sv)) agg (snd sv) task w then
           (case binpack_place offer i task w sv of
              Panic e \<Rightarrow> Panic e
            | Ok sv' \<Rightarrow> binpack_instances agg offer i task w sv')
         else Ok sv)
      else Ok sv)"
  by pat_completeness auto
termination
proof (relation "measure (\<lambda>(agg, offer, i, task, w, sv). nat (instances (fst sv) (Instances task)))")
  show "wf (measure (\<lambda>(agg, offer, i, task, w, sv). nat (instances (fst sv) (Instances task))))"
    by simp
next
  fix agg :: "'n::{plus,ord} \<times> 'n \<times> 'n" and offer :: "'n Offer" and i task w
    and sv sv' :: "'n BinPackSortedWatts \<times> 'n offer_vars"
  assume pos: "0 < instances (fst sv) (Instances task)"
    and ok: "binpack_place offer i task w sv = Ok sv'"
  have "instances (fst sv') (Instances task) = instances (fst sv) (Instances task) - 1"
    using ok
    by (cases sv)
      (auto simp add: binpack_place_def newTask_def Let_def decrement_Instances_def
        remove_if_scheduled_def remove_by_append_def close_Shutdown_def
        split: if_splits outcome.splits)
  with pos show "((agg, offer, i, task, w, sv'), (agg, offer, i, task, w, sv))
      \<in> measure (\<lambda>(agg, offer, i, task, w, sv). nat (instances (fst sv) (Instances task)))"
    by simp
qed

declare binpack_instances.simps [simp del]

text \<open>
  \<open>for i, task := range s.tasks\<close> (lines 153 to 193). The range expression is evaluated
  once: the loop runs over the indices below the length that \<open>s.tasks\<close> had when it
  began, and reads each element from the backing array when its turn comes, after the
  removals of the earlier passes. \<open>read\<close> gives the watts for a task on this offer.
\<close>

fun binpack_range ::
  "'n::{plus,ord} \<times> 'n \<times> 'n \<Rightarrow> 'n Offer \<Rightarrow> ('n Task \<Rightarrow> 'n) \<Rightarrow> nat list \<Rightarrow>
     'n BinPackSortedWatts \<times> 'n offer_vars \<Rightarrow> ('n BinPackSortedWatts \<times> 'n offer_vars) outcome" where
  "binpack_range agg offer read [] sv = Ok sv"
| "binpack_range agg offer read (i # rest) sv =
     (let task = tasks_array (fst sv) ! i in
      if Host task \<noteq> '''' \<and> \<not> prefix (Host task) (hostname offer)
      then binpack_range agg offer read rest sv
      else
        (case binpack_instances agg offer i task (read task) sv of
           Panic e \<Rightarrow> Panic e
         | Ok sv' \<Rightarrow> binpack_range agg offer read rest sv'))"

text \<open>One pass of the loop over the offers (lines 134 to 207): the new state and the call made on the driver.\<close>

definition binpack_offer ::
  "('n Task \<Rightarrow> 'n) \<Rightarrow> 'n::{plus,zero,ord} BinPackSortedWatts \<Rightarrow> 'n Offer \<Rightarrow>
     ('n BinPackSortedWatts \<times> 'n driver_call) outcome" where
  "binpack_offer read s offer =
     (if Shutdown s then Ok (s, DeclineOffer (offer_id offer) LongFilter)
      else
        (case binpack_range (OfferAgg offer) offer read [0..<tasks_len s] (s, offer_vars_init) of
           Panic e \<Rightarrow> Panic e
         | Ok (s', v) \<Rightarrow>
             if taken v then Ok (s', LaunchTasks (offer_id offer) (launch v) DefaultFilter)
             else Ok (s', DeclineOffer (offer_id offer) DefaultFilter)))"

fun binpack_offers ::
  "('n Offer \<Rightarrow> 'n Task \<Rightarrow> 'n) \<Rightarrow> 'n::{plus,zero,ord} BinPackSortedWatts \<Rightarrow> 'n Offer list \<Rightarrow>
     ('n BinPackSortedWatts \<times> 'n driver_call list) outcome" where
  "binpack_offers read s [] = Ok (s, [])"
| "binpack_offers read s (offer # offers) =
     (case binpack_offer (read offer) s offer of
        Panic e \<Rightarrow> Panic e
      | Ok (s', c) \<Rightarrow>
          (case binpack_offers read s' offers of
             Panic e \<Rightarrow> Panic e
           | Ok (s'', cs) \<Rightarrow> Ok (s'', c # cs)))"

text \<open>\<open>BinPackSortedWatts.ResourceOffers\<close>: the watts of a task are \<open>task.Watts\<close>.\<close>

definition ResourceOffers ::
  "'n::{plus,zero,ord} BinPackSortedWatts \<Rightarrow> 'n Offer list \<Rightarrow>
     ('n BinPackSortedWatts \<times> 'n driver_call list) outcome" where
  "ResourceOffers s offers = binpack_offers (\<lambda>offer. Watts) s offers"

text \<open>
  \<open>BPSWClassMapWatts.ResourceOffers\<close> is the same text with \<open>task.Watts\<close> replaced by
  \<open>task.ClassToWatts[nodeClass]\<close> in the test and in \<open>totalWatts\<close> (lines 164 to 177);
  its \<open>newTask\<close> is the one above and still puts \<open>task.Watts\<close> into the \<open>TaskInfo\<close>.
  \<open>nodeClass\<close> is the text of the last attribute called \<open>class\<close>, the empty string without
  one; reading a Go map at a missing key gives the zero value.
\<close>

definition nodeClass :: "'n Offer \<Rightarrow> string" where
  "nodeClass offer = foldl (\<lambda>c (n, v). if n = ''class'' then v else c) '''' (attributes offer)"

definition ClassToWatts_at :: "'n::zero Task \<Rightarrow> string \<Rightarrow> 'n" where
  "ClassToWatts_at task c = (case map_of (ClassToWatts task) c of None \<Rightarrow> 0 | Some w \<Rightarrow> w)"

definition ResourceOffers_ClassMapWatts ::
  "'n::{plus,zero,ord} BinPackSortedWatts \<Rightarrow> 'n Offer list \<Rightarrow>
     ('n BinPackSortedWatts \<times> 'n driver_call list) outcome" where
  "ResourceOffers_ClassMapWatts s offers =
     binpack_offers (\<lambda>offer task. ClassToWatts_at task (nodeClass offer)) s offers"

section \<open>\<open>MaxGreedyMins\<close>\<close>

text \<open>
  \<open>MaxGreedyMins\<close> works on the \<open>baseScheduler\<close>, which is declared outside the verified
  files; these are the fields \<open>MaxGreedyMins.go\<close> reads and writes.
\<close>

record 'n baseScheduler = "'n scheduler" +
  classMapWatts :: bool
  wattsAsAResource :: bool

datatype watts_error = UnknownPowerClass

text \<open>
  Modelled from the spec: \<open>def.WattsToConsider\<close> is not among the verified files. "If
  class-map mode is enabled and the offer carries a "class" attribute present in
  \<open>task.class_to_watts\<close>, return that value; otherwise return \<open>task.watts\<close>; if class-map
  is enabled but the class is missing from the task, fail with \<open>UnknownPowerClass\<close>."
\<close>

definition WattsToConsider :: "'n Task \<Rightarrow> bool \<Rightarrow> 'n Offer \<Rightarrow> watts_error + 'n" where
  "WattsToConsider task classMap offer =
     (if classMap then
        (case map_of (attributes offer) ''class'' of
           None \<Rightarrow> Inr (Watts task)
         | Some c \<Rightarrow>
             (case map_of (ClassToWatts task) c of
                None \<Rightarrow> Inl UnknownPowerClass
              | Some w \<Rightarrow> Inr w))
      else Inr (Watts task))"

text \<open>
  Modelled from the spec: \<open>offerUtils.HostMismatch\<close> is not among the verified files. It
  "returns true iff \<open>task_prefix\<close> is non-empty and is not a prefix of \<open>offer_host\<close>".
\<close>

definition HostMismatch :: "string \<Rightarrow> string \<Rightarrow> bool" where
  "HostMismatch offerHost taskHost = (taskHost \<noteq> '''' \<and> \<not> prefix taskHost offerHost)"

text \<open>\<open>log.Fatal(err)\<close> ends the process.\<close>

definition fatal_watts :: "watts_error + 'n \<Rightarrow> 'n outcome" where
  "fatal_watts r = (case r of Inl e \<Rightarrow> Panic (Fatal ''UnknownPowerClass'') | Inr w \<Rightarrow> Ok w)"

definition takeOffer ::
  "'n::{plus,zero,ord} baseScheduler \<Rightarrow> 'n Offer \<Rightarrow> 'n Task \<Rightarrow> 'n \<Rightarrow> 'n \<Rightarrow> 'n \<Rightarrow> bool outcome" where
  "takeOffer spc offer task totCPU totRAM totWatts =
     (case OfferAgg offer of (cpus, mem, watts) \<Rightarrow>
        (case fatal_watts (WattsToConsider task (classMapWatts spc) offer) of
           Panic e \<Rightarrow> Panic e
         | Ok wattsConsideration \<Rightarrow>
             Ok (cpus \<ge> totCPU + CPU task \<and> mem \<ge> totRAM + RAM task \<and>
                 (\<not> wattsAsAResource spc \<or> watts \<ge> totWatts + wattsConsideration))))"

text \<open>
  \<open>baseScheduler.newTask\<close> is not among the verified files. A scheduled instance is
  recorded with what \<open>CheckFit\<close> accounts for it: its task and the watts considered.
\<close>

record 'n placement =
  placed_task :: "'n Task"
  placed_watts :: 'n

record 'n consume_vars =
  scheduled :: "'n placement list"
  offerTaken :: bool
  usedWatts :: 'n
  usedCPU :: 'n
  usedRAM :: 'n

definition consume_vars_init :: "'n::zero consume_vars" where
  "consume_vars_init = \<lparr>scheduled = [], offerTaken = False, usedWatts = 0, usedCPU = 0, usedRAM = 0\<rparr>"

text \<open>
  \<open>CheckFit\<close>: the totals are passed by pointer and live in \<open>consume_vars\<close>; the result is
  \<open>None\<close> for \<open>(false, nil)\<close> and the new state, totals and scheduled instance for
  \<open>(true, taskToSchedule)\<close>.
\<close>

definition CheckFit ::
  "'n::{plus,zero,ord} baseScheduler \<Rightarrow> nat \<Rightarrow> 'n Task \<Rightarrow> 'n \<Rightarrow> 'n Offer \<Rightarrow> 'n consume_vars \<Rightarrow>
     ('n baseScheduler \<times> 'n consume_vars \<times> 'n placement) option outcome" where
  "CheckFit spc i task wattsConsideration offer v =
     (case takeOffer spc offer task (usedCPU v) (usedRAM v) (usedWatts v) of
        Panic e \<Rightarrow> Panic e
      | Ok False \<Rightarrow> Ok None
      | Ok True \<Rightarrow>
          (let v' = v\<lparr>usedWatts := usedWatts v + wattsConsideration,
                       usedCPU := usedCPU v + CPU task,
                       usedRAM := usedRAM v + RAM task\<rparr>;
               taskToSchedule = \<lparr>placed_task = task, placed_watts = wattsConsideration\<rparr>;
               spc1 = decrement_Instances spc task
           in case remove_if_scheduled spc1 i task of
                Panic e \<Rightarrow> Panic e
              | Ok spc2 \<Rightarrow> Ok (Some (spc2, v', taskToSchedule))))"

text \<open>
  The first loop of \<open>ConsumeOffers\<close> (lines 108 to 131), from the back of the queue:
  \<open>idx\<close> holds the indices still to visit, in descending order.
\<close>

fun consume_heaviest ::
  "'n::{plus,zero,ord} Offer \<Rightarrow> nat list \<Rightarrow> 'n baseScheduler \<times> 'n consume_vars \<Rightarrow>
     ('n baseScheduler \<times> 'n consume_vars) outcome" where
  "consume_heaviest offer [] sv = Ok sv"
| "consume_heaviest offer (i # idx) sv =
     (let task = tasks (fst sv) ! i in
      case fatal_watts (WattsToConsider task (classMapWatts (fst sv)) offer) of
        Panic e \<Rightarrow> Panic e
      | Ok wattsConsideration \<Rightarrow>
          if HostMismatch (hostname offer) (Host task) then consume_heaviest offer idx sv
          else
            (case CheckFit (fst sv) i task wattsConsideration offer (snd sv) of
               Panic e \<Rightarrow> Panic e
             | Ok None \<Rightarrow> consume_heaviest offer idx sv
             | Ok (Some (spc', v', t)) \<Rightarrow>
                 Ok (spc', v'\<lparr>offerTaken := True, scheduled := scheduled v' @ [t]\<rparr>)))"

text \<open>The loop \<open>for *task.Instances > 0\<close> of the second part (lines 147 to 158).\<close>

function consume_instances ::
  "'n::{plus,zero,ord} Offer \<Rightarrow> nat \<Rightarrow> 'n Task \<Rightarrow> 'n \<Rightarrow> 'n baseScheduler \<times> 'n consume_vars \<Rightarrow>
     ('n baseScheduler \<times> 'n consume_vars) outcome" where
  "consume_instances offer i task wattsConsideration sv =
     (if instances (fst sv) (Instances task) > 0 then
        (case CheckFit (fst sv) i task wattsConsideration offer (snd sv) of
           Panic e \<Rightarrow> Panic e
         | Ok None \<Rightarrow> Ok sv
         | Ok (Some (spc', v', t)) \<Rightarrow>
             consume_instances offer i task wattsConsideration
               (spc', v'\<lparr>offerTaken := True, scheduled := scheduled v' @ [t]\<rparr>))
      else Ok sv)"
  by pat_completeness auto
termination
proof (relation "measure (\<lambda>(offer, i, task, w, sv). nat (instances (fst sv) (Instances task)))",
    goal_cases)
  case 1
  show ?case by simp
next
  case 2
  then show ?case
    by (auto simp add: CheckFit_def Let_def decrement_Instances_def remove_if_scheduled_def
        remove_by_append_def close_Shutdown_def
        split: if_splits outcome.splits bool.splits prod.splits)
qed

declare consume_instances.simps [simp del]

text \<open>
  The second loop (lines 134 to 159), \<open>for i := 0; i < len(tasks); i++\<close>. The length is
  read anew before every pass and never grows, so the loop is over the indices below the
  first length, and it ends at the first index that the current length no longer
  exceeds.
\<close>

fun consume_lightest ::
  "'n::{plus,zero,ord} Offer \<Rightarrow> nat list \<Rightarrow> 'n baseScheduler \<times> 'n consume_vars \<Rightarrow>
     ('n baseScheduler \<times> 'n consume_vars) outcome" where
  "consume_lightest offer [] sv = Ok sv"
| "consume_lightest offer (i # idx) sv =
     (if i < tasks_len (fst sv) then
        (let task = tasks (fst sv) ! i in
         case fatal_watts (WattsToConsider task (classMapWatts (fst sv)) offer) of
           Panic e \<Rightarrow> Panic e
         | Ok wattsConsideration \<Rightarrow>
             if HostMismatch (hostname offer) (Host task) then consume_lightest offer idx sv
             else
               (case consume_instances offer i task wattsConsideration sv of
                  Panic e \<Rightarrow> Panic e
                | Ok sv' \<Rightarrow> consume_lightest offer idx sv'))
      else Ok sv)"

text \<open>
  What \<open>ConsumeOffers\<close> asks of the driver for one offer: the instances to launch
  (through the helper \<open>LaunchTasks\<close>, with the offer's id) or a decline.
\<close>

datatype 'n consume_call =
    Launch string "'n placement list"
  | Decline string filters

definition ConsumeOffers_offer ::
  "'n::{plus,zero,ord} baseScheduler \<Rightarrow> 'n Offer \<Rightarrow> ('n baseScheduler \<times> 'n consume_call) outcome" where
  "ConsumeOffers_offer spc offer =
     (if Shutdown spc then Ok (spc, Decline (offer_id offer) LongFilter)
      else
        (case consume_heaviest offer (rev [0..<tasks_len spc]) (spc, consume_vars_init) of
           Panic e \<Rightarrow> Panic e
         | Ok sv1 \<Rightarrow>
             (case consume_lightest offer [0..<tasks_len (fst sv1)] sv1 of
                Panic e \<Rightarrow> Panic e
              | Ok (spc', v) \<Rightarrow>
                  if offerTaken v then Ok (spc', Launch (offer_id offer) (scheduled v))
                  else Ok (spc', Decline (offer_id offer) DefaultFilter))))"

fun ConsumeOffers_loop ::
  "'n::{plus,zero,ord} baseScheduler \<Rightarrow> 'n Offer list \<Rightarrow>
     ('n baseScheduler \<times> 'n consume_call list) outcome" where
  "ConsumeOffers_loop spc [] = Ok (spc, [])"
| "ConsumeOffers_loop spc (offer # offers) =
     (case ConsumeOffers_offer spc offer of
        Panic e \<Rightarrow> Panic e
      | Ok (spc', c) \<Rightarrow>
          (case ConsumeOffers_loop spc' offers of
             Panic e \<Rightarrow> Panic e
           | Ok (spc'', cs) \<Rightarrow> Ok (spc'', c # cs)))"

text \<open>
  \<open>MaxGreedyMins.ConsumeOffers\<close>: \<open>def.SortTasks(tasks, def.SortByWatts)\<close>, declared
  outside the verified files, is the argument \<open>srt\<close>; it reorders the queue in place.
  The switch to a random policy that follows the loop does not touch the offers of this
  batch and is left out.
\<close>

definition ConsumeOffers ::
  "('n Task list \<Rightarrow> 'n Task list) \<Rightarrow> 'n::{plus,zero,ord} baseScheduler \<Rightarrow> 'n Offer list \<Rightarrow>
     ('n baseScheduler \<times> 'n consume_call list) outcome" where
  "ConsumeOffers srt spc offers =
     ConsumeOffers_loop
       (spc\<lparr>tasks_array := srt (tasks spc) @ drop (tasks_len spc) (tasks_array spc)\<rparr>) offers"

section \<open>\<open>ProactiveClusterwideCapRanked\<close>\<close>

text \<open>
  The capper (package \<open>pcp\<close>) is not among the verified files. Its state has the type
  \<open>'c\<close>, and the three methods the scheduler calls are the fields of \<open>capper_ops\<close>; a
  method returns \<open>None\<close> in place of a cap when it returns an error. The cap values are
  \<open>float64\<close> percentages; the scheduler rounds them and compares them with zero, and they
  are real numbers here.
\<close>

record ('n, 'c) capper_ops =
  FCFSDeterminedCap :: "'c \<Rightarrow> (string \<Rightarrow> 'n option) \<Rightarrow> 'n Task \<Rightarrow> real option \<times> 'c"
  TaskFinished :: "'c \<Rightarrow> string \<Rightarrow> 'c"
  CleverRecap ::
    "'c \<Rightarrow> (string \<Rightarrow> 'n option) \<Rightarrow> (string \<Rightarrow> 'n Task list) \<Rightarrow> string \<Rightarrow> real option \<times> 'c"

text \<open>
  The struct, with the package variables \<open>rankedCurrentCapValue\<close> and
  \<open>rankedRecapValue\<close>. Of the two tickers the state keeps whether each was stopped, and
  of the goroutines that \<open>startCapping\<close> and \<open>startRecapping\<close> launch, their number.
  The bodies of the two goroutines are \<open>cap_tick\<close> and \<open>recap_tick\<close> below; each runs
  under the mutex, as one step.
\<close>

record ('n, 'c) ProactiveClusterwideCapRanked = "'n BinPackSortedWatts" +
  taskMonitor :: "string \<Rightarrow> 'n Task list"
  availablePower :: "string \<Rightarrow> 'n option"
  totalPower :: "string \<Rightarrow> 'n option"
  capper :: 'c
  ticker_stopped :: bool
  recapTicker_stopped :: bool
  isCapping :: bool
  isRecapping :: bool
  capping_routines :: nat
  recapping_routines :: nat
  rankedCurrentCapValue :: real
  rankedRecapValue :: real

definition ranked_takeOffer :: "'n::{plus,zero,ord} Offer \<Rightarrow> 'n Task \<Rightarrow> bool" where
  "ranked_takeOffer offer task =
     (case OfferAgg offer of (offer_cpu, offer_mem, offer_watts) \<Rightarrow>
        offer_cpu \<ge> CPU task \<and> offer_mem \<ge> RAM task \<and> offer_watts \<ge> Watts task)"

text \<open>
  \<open>newTask\<close> of this scheduler: that of \<open>BinPackSortedWatts\<close>, and the copy of the task,
  with its task id set, is appended to the tasks monitored on the offer's host.
\<close>

definition ranked_newTask ::
  "('n, 'c) ProactiveClusterwideCapRanked \<Rightarrow> 'n Offer \<Rightarrow> 'n Task \<Rightarrow>
     'n TaskInfo \<times> ('n, 'c) ProactiveClusterwideCapRanked" where
  "ranked_newTask s offer task =
     (case newTask s offer task of (ti, s') \<Rightarrow>
        (ti, s'\<lparr>taskMonitor := (taskMonitor s')
                 (hostname offer :=
                    taskMonitor s' (hostname offer) @ [task\<lparr>TaskID := ti_task_id ti\<rparr>])\<rparr>))"

definition startCapping ::
  "('n, 'c) ProactiveClusterwideCapRanked \<Rightarrow> ('n, 'c) ProactiveClusterwideCapRanked" where
  "startCapping s = s\<lparr>capping_routines := capping_routines s + 1\<rparr>"

definition startRecapping ::
  "('n, 'c) ProactiveClusterwideCapRanked \<Rightarrow> ('n, 'c) ProactiveClusterwideCapRanked" where
  "startRecapping s = s\<lparr>recapping_routines := recapping_routines s + 1\<rparr>"

definition stopCapping ::
  "('n, 'c) ProactiveClusterwideCapRanked \<Rightarrow> ('n, 'c) ProactiveClusterwideCapRanked" where
  "stopCapping s =
     (if isCapping s then s\<lparr>ticker_stopped := True, isCapping := False, isRecapping := True\<rparr>
      else s)"


text \<open>\<open>int(math.Floor(x + 0.5))\<close>, the rounding used wherever a cap is pushed or compared.\<close>

definition round_cap :: "real \<Rightarrow> int" where
  "round_cap x = \<lfloor>x + 1 / 2\<rfloor>"

text \<open>
  The body of the goroutine of \<open>startCapping\<close> for one tick, and that of
  \<open>startRecapping\<close>: the calls \<open>rapl.Cap(host, "rapl", percentage)\<close> made, one for each
  host of \<open>constants.Hosts\<close> (the argument \<open>hosts\<close>), and the state left.
\<close>

definition cap_tick ::
  "string list \<Rightarrow> ('n, 'c) ProactiveClusterwideCapRanked \<Rightarrow>
     (string \<times> int) list \<times> ('n, 'c) ProactiveClusterwideCapRanked" where
  "cap_tick hosts s =
     (if rankedCurrentCapValue s > 0
      then (map (\<lambda>host. (host, round_cap (rankedCurrentCapValue s))) hosts, s)
      else ([], s))"


text \<open>
  The branch of \<open>ResourceOffers\<close> taken when the task at index \<open>i\<close> fits (lines 310 to
  345): the state left and the launch asked of the driver. The branch ends with
  \<open>break\<close>.
\<close>

definition ranked_take ::
  "('n, 'c) capper_ops \<Rightarrow> 'n Offer \<Rightarrow> nat \<Rightarrow> 'n Task \<Rightarrow> ('n, 'c) ProactiveClusterwideCapRanked \<Rightarrow>
     (('n, 'c) ProactiveClusterwideCapRanked \<times> 'n driver_call) outcome" where
  "ranked_take ops offer i task s =
     (let s1 = (if \<not> isCapping s then startCapping (s\<lparr>isCapping := True\<rparr>) else s);
          (tempCap, c') = FCFSDeterminedCap ops (capper s1) (totalPower s1) task;
          s2 = s1\<lparr>capper := c'\<rparr>;
          s3 = (case tempCap of Some cap \<Rightarrow> s2\<lparr>rankedCurrentCapValue := cap\<rparr> | None \<Rightarrow> s2);
          (ti, s4) = ranked_newTask s3 offer task;
          call = LaunchTasks (offer_id offer) [ti] DefaultFilter;
          s5 = decrement_Instances s4 task
      in if instances s5 (Instances task) \<le> 0 then
           (let s6 = s5\<lparr>tasks_array := (tasks_array s5)[i := tasks_array s5 ! (tasks_len s5 - 1)],
                        tasks_len := tasks_len s5 - 1\<rparr>
            in if tasks_len s6 \<le> 0 then
                 (case close_Shutdown (startRecapping (stopCapping s6)) of
                    Panic e \<Rightarrow> Panic e
                  | Ok s7 \<Rightarrow> Ok (s7, call))
               else Ok (s6, call))
         else Ok (s5, call))"

text \<open>
  \<open>for i, task := range s.tasks\<close> (lines 302 to 349) over the indices \<open>idx\<close> still to
  visit: \<open>None\<close> when the loop ends with \<open>taken\<close> false.
\<close>

fun ranked_scan ::
  "('n::{plus,zero,ord}, 'c) capper_ops \<Rightarrow> 'n Offer \<Rightarrow> nat list \<Rightarrow>
     ('n, 'c) ProactiveClusterwideCapRanked \<Rightarrow>
     (('n, 'c) ProactiveClusterwideCapRanked \<times> 'n driver_call option) outcome" where
  "ranked_scan ops offer [] s = Ok (s, None)"
| "ranked_scan ops offer (i # idx) s =
     (let task = tasks_array s ! i in
      if \<not> prefix (Host task) (hostname offer) then ranked_scan ops offer idx s
      else if ranked_takeOffer offer task then
        (case ranked_take ops offer i task s of
           Panic e \<Rightarrow> Panic e
         | Ok (s', call) \<Rightarrow> Ok (s', Some call))
      else ranked_scan ops offer idx s)"

text \<open>One pass of the second loop over the offers (lines 276 to 359).\<close>

definition ranked_offer ::
  "('n::{plus,zero,ord}, 'c) capper_ops \<Rightarrow> ('n, 'c) ProactiveClusterwideCapRanked \<Rightarrow> 'n Offer \<Rightarrow>
     (('n, 'c) ProactiveClusterwideCapRanked \<times> 'n driver_call) outcome" where
  "ranked_offer ops s offer =
     (if Shutdown s then Ok (s, DeclineOffer (offer_id offer) LongFilter)
      else
        (case ranked_scan ops offer [0..<tasks_len s] s of
           Panic e \<Rightarrow> Panic e
         | Ok (s', Some call) \<Rightarrow> Ok (s', call)
         | Ok (s', None) \<Rightarrow> Ok (s', DeclineOffer (offer_id offer) DefaultFilter)))"

fun ranked_offers ::
  "('n::{plus,zero,ord}, 'c) capper_ops \<Rightarrow> ('n, 'c) ProactiveClusterwideCapRanked \<Rightarrow> 'n Offer list \<Rightarrow>
     (('n, 'c) ProactiveClusterwideCapRanked \<times> 'n driver_call list) outcome" where
  "ranked_offers ops s [] = Ok (s, [])"
| "ranked_offers ops s (offer # offers) =
     (case ranked_offer ops s offer of
        Panic e \<Rightarrow> Panic e
      | Ok (s', c) \<Rightarrow>
          (case ranked_offers ops s' offers of
             Panic e \<Rightarrow> Panic e
           | Ok (s'', cs) \<Rightarrow> Ok (s'', c # cs)))"

text \<open>The first loop over the offers (lines 253 to 260).\<close>

definition record_power ::
  "('n::{plus,zero}, 'c) ProactiveClusterwideCapRanked \<Rightarrow> 'n Offer \<Rightarrow>
     ('n, 'c) ProactiveClusterwideCapRanked" where
  "record_power s offer =
     (case OfferAgg offer of (offer_cpu, offer_mem, offer_watts) \<Rightarrow>
        s\<lparr>availablePower := (availablePower s)(hostname offer \<mapsto> offer_watts),
          totalPower := (if totalPower s (hostname offer) = None
                         then (totalPower s)(hostname offer \<mapsto> offer_watts)
                         else totalPower s)\<rparr>)"

text \<open>
  \<open>ProactiveClusterwideCapRanked.ResourceOffers\<close>; \<open>srt\<close> stands for
  \<open>sort.Sort(def.WattsSorter(s.tasks))\<close>, as in the constructor of \<open>BinPackSortedWatts\<close>.
\<close>

definition ranked_ResourceOffers ::
  "('n Task list \<Rightarrow> 'n Task list) \<Rightarrow> ('n::{plus,zero,ord}, 'c) capper_ops \<Rightarrow>
     ('n, 'c) ProactiveClusterwideCapRanked \<Rightarrow> 'n Offer list \<Rightarrow>
     (('n, 'c) ProactiveClusterwideCapRanked \<times> 'n driver_call list) outcome" where
  "ranked_ResourceOffers srt ops s offers =
     (let s1 = foldl record_power s offers;
          s2 = (if tasks_len s1 > 0
                then s1\<lparr>tasks_array := srt (tasks s1) @ drop (tasks_len s1) (tasks_array s1)\<rparr>
                else s1)
      in ranked_offers ops s2 offers)"

text \<open>The task states of Mesos that a status update may carry.\<close>

datatype TaskState =
    TASK_STAGING | TASK_STARTING | TASK_RUNNING | TASK_FINISHED | TASK_FAILED
  | TASK_KILLED | TASK_LOST | TASK_ERROR





text \<open>
  \<open>NewProactiveClusterwideCapRanked\<close>; \<open>c\<close> is the capper instance that
  \<open>pcp.GetClusterwideCapperInstance()\<close> returns and \<open>cnt\<close> holds the counters the tasks
  point to.
\<close>

definition NewProactiveClusterwideCapRanked ::
  "'c \<Rightarrow> (nat \<Rightarrow> int) \<Rightarrow> 'n Task list \<Rightarrow> bool \<Rightarrow> ('n, 'c) ProactiveClusterwideCapRanked" where
  "NewProactiveClusterwideCapRanked c cnt ts ignore =
     \<lparr>tasksCreated = 0, tasksRunning = 0, tasks_array = ts, tasks_len = length ts,
      instances = cnt, running = (\<lambda>agent. {}), RecordPCP = False,
      Shutdown = False, Done = False, ignoreWatts = ignore,
      taskMonitor = (\<lambda>host. []), availablePower = (\<lambda>host. None), totalPower = (\<lambda>host. None),
      capper = c, ticker_stopped = False, recapTicker_stopped = False,
      isCapping = False, isRecapping = False, capping_routines = 0, recapping_routines = 0,
      rankedCurrentCapValue = 0, rankedRecapValue = 0\<rparr>"

section \<open>Inputs of the examples\<close>

text \<open>
  A task without host requirement and class map, an offer of one agent with the three
  scalar resources, and a capper whose every computation returns the cap \<open>v\<close>.
\<close>

definition task_of :: "string \<Rightarrow> real \<Rightarrow> real \<Rightarrow> real \<Rightarrow> nat \<Rightarrow> real Task" where
  "task_of name cpu ram watts counter =
     \<lparr>Name = name, CPU = cpu, RAM = ram, Watts = watts, Image = ''img'', CMD = ''cmd'',
      Instances = counter, Host = '''', TaskID = '''', ClassToWatts = []\<rparr>"

definition offer_of :: "string \<Rightarrow> real \<Rightarrow> real \<Rightarrow> real \<Rightarrow> real Offer" where
  "offer_of oid cpu mem watts =
     \<lparr>offer_id = oid, slave_id = ''agent-1'', hostname = ''node-a-1'', attributes = [],
      resources = [(''cpus'', cpu), (''mem'', mem), (''watts'', watts)]\<rparr>"

definition constant_capper :: "real \<Rightarrow> (real, unit) capper_ops" where
  "constant_capper v =
     \<lparr>FCFSDeterminedCap = (\<lambda>c total task. (Some v, c)),
      TaskFinished = (\<lambda>c task_id. c),
      CleverRecap = (\<lambda>c total monitor task_id. (Some v, c))\<rparr>"

text \<open>
  A \<open>baseScheduler\<close> with the queue \<open>ts\<close> and nothing scheduled yet; the task of the
  class-map examples, which knows the power class \<open>A\<close> only; and an offer of a node of
  class \<open>c\<close>.
\<close>

definition baseScheduler_of :: "(nat \<Rightarrow> int) \<Rightarrow> real Task list \<Rightarrow> bool \<Rightarrow> bool \<Rightarrow> real baseScheduler" where
  "baseScheduler_of cnt ts classMap wattsRes =
     \<lparr>tasksCreated = 0, tasksRunning = 0, tasks_array = ts, tasks_len = length ts,
      instances = cnt, running = (\<lambda>agent. {}), RecordPCP = False,
      Shutdown = False, Done = False, classMapWatts = classMap, wattsAsAResource = wattsRes\<rparr>"

definition class_task :: "real Task" where
  "class_task = (task_of ''t'' 1 1 100 0)\<lparr>ClassToWatts := [(''A'', 40)]\<rparr>"

definition class_offer :: "string \<Rightarrow> real \<Rightarrow> real Offer" where
  "class_offer c watts = (offer_of ''o1'' 10 100 watts)\<lparr>attributes := [(''class'', c)]\<rparr>"

section \<open>What a launch takes from an offer\<close>









section \<open>Properties of \<open>nextPolicy\<close>\<close>

lemma taskDist_mono_le:
  assumes "sorted_wrt (<) (map taskDist sps)" and "a \<le> b" and "b < length sps"
  shows "taskDist (sps ! a) \<le> taskDist (sps ! b)"
proof (cases "a = b")
  case True
  then show ?thesis by simp
next
  case False
  with assms(2) have "a < b" by simp
  with assms(1,3) have "taskDist (sps ! a) < taskDist (sps ! b)"
    by (simp add: sorted_wrt_iff_nth_less)
  then show ?thesis by simp
qed

text \<open>
  When \<open>taskDist\<close> lies strictly between the declared values at the adjacent indices
  \<open>i\<close> and \<open>i + 1\<close> of a sorted registry, the loop ends without a name, with
  \<open>low = i + 1\<close> and \<open>high = i\<close>: the variable called \<open>high\<close> holds the smaller
  index.
\<close>

lemma nextPolicy_search_gap:
  assumes srt: "sorted_wrt (<) (map taskDist sps)"
    and i: "i + 1 < length sps"
    and lo: "taskDist (sps ! i) < t" and hi: "t < taskDist (sps ! (i + 1))"
  shows "0 \<le> low \<Longrightarrow> low \<le> int i + 1 \<Longrightarrow> int i \<le> high \<Longrightarrow> high < int (length sps)
    \<Longrightarrow> nextPolicy_search sps t low high = Ok ('''', int i + 1, int i)"
proof (induction "nat (high + 1 - low)" arbitrary: low high rule: less_induct)
  case less
  show ?case
  proof (cases "low \<le> high")
    case False
    with less.prems have eqs: "low = int i + 1" "high = int i" by auto
    have "nextPolicy_search sps t low high = Ok ('''', low, high)"
      using False by (subst nextPolicy_search.simps) simp
    with eqs show ?thesis by simp
  next
    case True
    define mid where "mid = (low + high) div 2"
    have mid_rng: "low \<le> mid" "mid \<le> high" using True by (auto simp: mid_def)
    hence mid_ok: "0 \<le> mid" "mid < int (length sps)" using less.prems by auto
    hence idx: "index_at sps mid = Ok (sps ! nat mid)" by (simp add: index_at_def)
    have nm: "nat mid < length sps" using mid_ok by linarith
    let ?p = "sps ! nat mid"
    show ?thesis
    proof (cases "nat mid \<le> i")
      case le: True
      have "taskDist ?p \<le> taskDist (sps ! i)"
        using taskDist_mono_le[OF srt le] i by simp
      hence lt: "taskDist ?p < t" using lo by simp
      have rec: "nextPolicy_search sps t (mid + 1) high = Ok ('''', int i + 1, int i)"
        using less.prems mid_rng mid_ok le by (intro less.hyps) auto
      show ?thesis
        using True idx lt rec
        by (simp add: nextPolicy_search.simps[of sps t low high] mid_def[symmetric] Let_def)
    next
      case False
      hence gt: "i + 1 \<le> nat mid" by simp
      have "taskDist (sps ! (i + 1)) \<le> taskDist ?p"
        using taskDist_mono_le[OF srt gt nm] .
      hence lt: "t < taskDist ?p" using hi by simp
      have rec: "nextPolicy_search sps t low (mid - 1) = Ok ('''', int i + 1, int i)"
        using less.prems mid_rng mid_ok gt by (intro less.hyps) auto
      show ?thesis
        using True idx lt rec
        by (simp add: nextPolicy_search.simps[of sps t low high] mid_def[symmetric] Let_def)
    qed
  qed
qed

lemma index_at_first: "sps \<noteq> [] \<Longrightarrow> index_at sps 0 = Ok (sps ! 0)"
  by (simp add: index_at_def)

lemma index_at_last:
  assumes "sps \<noteq> []"
  shows "index_at sps (int (length sps) - 1) = Ok (sps ! (length sps - 1))"
proof -
  have "nat (int (length sps) - 1) = length sps - 1" by linarith
  thus ?thesis using assms by (simp add: index_at_def)
qed

lemma nextPolicy_between:
  assumes srt: "sorted_wrt (<) (map taskDist sps)"
    and i: "i + 1 < length sps"
    and lo: "taskDist (sps ! i) < td_dist r" and hi: "td_dist r < taskDist (sps ! (i + 1))"
    and nerr: "td_err r = None"
  shows "nextPolicy bp sps r =
     Ok (if taskDist (sps ! (i + 1)) - td_dist r < td_dist r - taskDist (sps ! i)
          then spName (sps ! (i + 1)) else spName (sps ! i), td_dist r)"
proof -
  have ne: "sps \<noteq> []" using i by auto
  have a: "index_at sps (int i + 1) = Ok (sps ! (i + 1))"
    using i by (simp add: index_at_def nat_add_distrib)
  have b: "index_at sps (int i) = Ok (sps ! i)" using i by (simp add: index_at_def)
  have "taskDist (sps ! 0) \<le> taskDist (sps ! i)"
    using taskDist_mono_le[OF srt, of 0 i] i by simp
  hence nf: "\<not> td_dist r < taskDist (sps ! 0)" using lo by simp
  have "taskDist (sps ! (i + 1)) \<le> taskDist (sps ! (length sps - 1))"
    using taskDist_mono_le[OF srt, of "i + 1" "length sps - 1"] i by simp
  hence nl: "\<not> td_dist r > taskDist (sps ! (length sps - 1))" using hi by simp
  have s: "nextPolicy_search sps (td_dist r) 0 (int (length sps) - 1) = Ok ('''', int i + 1, int i)"
    using i by (intro nextPolicy_search_gap[OF srt i lo hi]) auto
  show ?thesis
    using nerr nf nl
    by (simp add: nextPolicy_def nextPolicy_closest_def index_at_first[OF ne]
        index_at_last[OF ne] s a b Let_def)
qed

text \<open>
  Claim C7. When the classifier reports an error (\<open>SingleCluster\<close>: all the tasks of the
  window fall into one cluster), \<open>nextPolicy\<close> returns the name held by the constant
  \<open>bp\<close>, the bin-packing policy, whatever the registry holds.
\<close>

theorem nextPolicy_single_cluster_falls_back_to_bp:
  "td_err r \<noteq> None \<Longrightarrow> nextPolicy bp sps r = Ok (bp, td_dist r)"
  by (simp add: nextPolicy_def)

theorem nextPolicy_single_cluster_witness:
  "td_err \<lparr>td_dist = 0, td_err = Some ''SingleCluster''\<rparr> \<noteq> None \<and>
   nextPolicy ''bin-packing''
     [\<lparr>spName = ''first-fit'', taskDist = 1\<rparr>, \<lparr>spName = ''max-min'', taskDist = 3\<rparr>]
     \<lparr>td_dist = 0, td_err = Some ''SingleCluster''\<rparr> = Ok (''bin-packing'', 0)"
  using nextPolicy_single_cluster_falls_back_to_bp
    [of "\<lparr>td_dist = 0, td_err = Some ''SingleCluster''\<rparr>" "''bin-packing''"
        "[\<lparr>spName = ''first-fit'', taskDist = 1\<rparr>, \<lparr>spName = ''max-min'', taskDist = 3\<rparr>]"]
  by simp

text \<open>
  Claim C2, as stated, fails on its second half. With the registry
  \<open>[first-fit at 1, max-min at 3]\<close> and the window distribution \<open>2\<close>, equidistant from
  both, \<open>nextPolicy\<close> selects \<open>first-fit\<close>, the entry at the lower index: after the loop
  \<open>high = low - 1\<close>, and the tie branch reads \<open>schedPoliciesToSwitch[high]\<close>.
\<close>

theorem nextPolicy_tie_selects_lower_index_counterexample:
  "nextPolicy ''bin-packing''
     [\<lparr>spName = ''first-fit'', taskDist = 1\<rparr>, \<lparr>spName = ''max-min'', taskDist = 3\<rparr>]
     \<lparr>td_dist = 2, td_err = None\<rparr> = Ok (''first-fit'', 2) \<and>
   nextPolicy ''bin-packing''
     [\<lparr>spName = ''first-fit'', taskDist = 1\<rparr>, \<lparr>spName = ''max-min'', taskDist = 3\<rparr>]
     \<lparr>td_dist = 2, td_err = None\<rparr> \<noteq> Ok (''max-min'', 2)"
  by (simp add: nextPolicy_def nextPolicy_closest_def index_at_def nextPolicy_search.simps)

text \<open>
  Claim C2, amended. For a classifier result without error and a non-empty registry sorted
  by strictly increasing declared distribution: a window distribution below the first
  declared value selects the first policy, one above the last declared value selects the
  last policy, and one strictly between the adjacent declared values at \<open>i\<close> and \<open>i + 1\<close>
  and equidistant from both selects the policy at \<open>i\<close>, the lower index.
\<close>

theorem nextPolicy_clamps_and_tie_selects_lower_index:
  assumes "td_err r = None" and "sps \<noteq> []" and "sorted_wrt (<) (map taskDist sps)"
  shows "(td_dist r < taskDist (sps ! 0) \<longrightarrow>
            nextPolicy bp sps r = Ok (spName (sps ! 0), td_dist r)) \<and>
         (taskDist (sps ! (length sps - 1)) < td_dist r \<longrightarrow>
            nextPolicy bp sps r = Ok (spName (sps ! (length sps - 1)), td_dist r)) \<and>
         (i + 1 < length sps \<and> taskDist (sps ! i) < td_dist r \<and>
          td_dist r < taskDist (sps ! (i + 1)) \<and>
          taskDist (sps ! (i + 1)) - td_dist r = td_dist r - taskDist (sps ! i) \<longrightarrow>
            nextPolicy bp sps r = Ok (spName (sps ! i), td_dist r))"
proof (intro conjI impI)
  assume "td_dist r < taskDist (sps ! 0)"
  then show "nextPolicy bp sps r = Ok (spName (sps ! 0), td_dist r)"
    using assms(1,2) by (simp add: nextPolicy_def index_at_first index_at_last)
next
  assume above: "taskDist (sps ! (length sps - 1)) < td_dist r"
  have "taskDist (sps ! 0) \<le> taskDist (sps ! (length sps - 1))"
    using taskDist_mono_le[OF assms(3), of 0 "length sps - 1"] assms(2) by simp
  with above have "\<not> td_dist r < taskDist (sps ! 0)" by simp
  with above show "nextPolicy bp sps r = Ok (spName (sps ! (length sps - 1)), td_dist r)"
    using assms(1,2) by (simp add: nextPolicy_def index_at_first index_at_last)
next
  assume h: "i + 1 < length sps \<and> taskDist (sps ! i) < td_dist r \<and>
          td_dist r < taskDist (sps ! (i + 1)) \<and>
          taskDist (sps ! (i + 1)) - td_dist r = td_dist r - taskDist (sps ! i)"
  then show "nextPolicy bp sps r = Ok (spName (sps ! i), td_dist r)"
    using nextPolicy_between[OF assms(3), of i r bp] assms(1) by simp
qed

theorem nextPolicy_clamps_and_tie_witness:
  "nextPolicy ''bin-packing''
     [\<lparr>spName = ''first-fit'', taskDist = 1\<rparr>, \<lparr>spName = ''max-min'', taskDist = 3\<rparr>]
     \<lparr>td_dist = 1 / 2, td_err = None\<rparr> = Ok (''first-fit'', 1 / 2) \<and>
   nextPolicy ''bin-packing''
     [\<lparr>spName = ''first-fit'', taskDist = 1\<rparr>, \<lparr>spName = ''max-min'', taskDist = 3\<rparr>]
     \<lparr>td_dist = 7, td_err = None\<rparr> = Ok (''max-min'', 7) \<and>
   nextPolicy ''bin-packing''
     [\<lparr>spName = ''first-fit'', taskDist = 1\<rparr>, \<lparr>spName = ''max-min'', taskDist = 3\<rparr>]
     \<lparr>td_dist = 2, td_err = None\<rparr> = Ok (''first-fit'', 2)"
  using
    nextPolicy_clamps_and_tie_selects_lower_index
      [of "\<lparr>td_dist = 1 / 2, td_err = None\<rparr>"
          "[\<lparr>spName = ''first-fit'', taskDist = 1\<rparr>, \<lparr>spName = ''max-min'', taskDist = 3\<rparr>]"
          "''bin-packing''" 0]
    nextPolicy_clamps_and_tie_selects_lower_index
      [of "\<lparr>td_dist = 7, td_err = None\<rparr>"
          "[\<lparr>spName = ''first-fit'', taskDist = 1\<rparr>, \<lparr>spName = ''max-min'', taskDist = 3\<rparr>]"
          "''bin-packing''" 0]
    nextPolicy_clamps_and_tie_selects_lower_index
      [of "\<lparr>td_dist = 2, td_err = None\<rparr>"
          "[\<lparr>spName = ''first-fit'', taskDist = 1\<rparr>, \<lparr>spName = ''max-min'', taskDist = 3\<rparr>]"
          "''bin-packing''" 0]
  by simp

section \<open>Properties of the RAPL daemon\<close>

text \<open>
  The rounding agrees with the \<open>float64\<close> values known for \<open>1/10\<close> and \<open>1/3\<close>, keeps an
  integer below \<open>2^53\<close>, and takes \<open>2^53 + 1\<close>, halfway between two values, to the even
  significand.
\<close>

lemma binary64_examples:
  "binary64 (1 / 10) = 3602879701896397 / 36028797018963968"
  "binary64 (1 / 3) = 6004799503160661 / 18014398509481984"
  "binary64 1500000 = 1500000"
  "binary64 9007199254740993 = 9007199254740992"
  by code_simp+

text \<open>
  Claim C5, as stated, fails. It asks for the exact ceiling of \<open>M * N / 100\<close>. \<open>capNode\<close> first rounds
  \<open>N / 100\<close> to a \<open>float64\<close>, and for \<open>N = 7\<close> that value lies above \<open>7 / 100\<close>. With the
  maximum power \<open>1500000\<close> the product is rounded to a value above \<open>105000\<close>, and
  \<open>math.Ceil\<close> lifts it to \<open>105001\<close>, one more than \<open>ceil (1500000 * 7 / 100) = 105000\<close>.
\<close>

theorem capNode_writes_above_exact_ceiling:
  "binary64 (7 / 100) = 1261007895663739 / 18014398509481984 \<and>
   capNode (sysfs_one_zone ''1500000'') 7 =
     (None,
      \<lparr>listing = Some [''intel-rapl:0'', ''intel-rapl:0:0''],
       regular_files = [((''intel-rapl:0'', ''constraint_0_max_power_uw''), ''1500000''),
                        ((''intel-rapl:0'', ''constraint_0_power_limit_uw''), ''105001'')],
       read_only = []\<rparr>) \<and>
   FormatUint \<lceil>(1500000 * 7 :: rat) / 100\<rceil> = ''105000''"
  by code_simp

subsection \<open>The error of the \<open>float64\<close> computation in \<open>capNode\<close>\<close>

lemma pow2_powi: "pow2 e = 2 powi e"
  by (simp add: pow2_def power_int_def field_simps)

lemma pow2_pos: "0 < pow2 e" by (simp add: pow2_powi)

lemma pow2_add: "pow2 (a + b) = pow2 a * pow2 b"
  by (simp add: pow2_powi power_int_add)

lemma pow2_diff: "pow2 (a - b) = pow2 a / pow2 b"
  by (simp add: pow2_powi power_int_diff)

lemma pow2_mono: "a \<le> b \<Longrightarrow> pow2 a \<le> pow2 b"
  by (simp add: pow2_powi power_int_increasing)

lemma pow2_nat: "0 \<le> e \<Longrightarrow> pow2 e = 2 ^ nat e"
  by (simp add: pow2_def)

lemma floor_log2_le:
  assumes "0 < x"
  shows "pow2 (floor_log2 x) \<le> x"
proof -
  obtain p q where pq: "quotient_of x = (p, q)" by (cases "quotient_of x") auto
  then have q: "0 < q" and x: "x = of_int p / of_int q"
    using quotient_of_denom_pos[OF pq] quotient_of_div[OF pq] by auto
  with assms have p: "0 < p" by (simp add: zero_less_divide_iff)
  define k where "k = bitlen p - bitlen q"
  show ?thesis
  proof (cases "pow2 k \<le> x")
    case True
    then show ?thesis by (simp add: floor_log2_def pq k_def)
  next
    case False
    have bp: "2 ^ nat (bitlen p - 1) \<le> p" using bitlen_bounds[OF p] by simp
    have bq: "q < 2 ^ nat (bitlen q)" using bitlen_bounds[OF q] by simp
    have bp0: "0 \<le> bitlen p - 1" using p by (simp add: bitlen_def floorlog_def)
    have bq0: "0 \<le> bitlen q" by (rule bitlen_nonneg)
    have "pow2 (k - 1) = pow2 (bitlen p - 1) / pow2 (bitlen q)"
      by (simp add: k_def pow2_diff[symmetric] algebra_simps)
    also have "\<dots> = of_int (2 ^ nat (bitlen p - 1)) / of_int (2 ^ nat (bitlen q))"
      using bp0 bq0 by (simp add: pow2_nat)
    also have "\<dots> \<le> of_int p / of_int q"
      using bp bq q p by (intro frac_le) (auto simp: of_int_le_iff less_imp_le)
    finally have "pow2 (k - 1) \<le> x" using x by simp
    with False show ?thesis by (simp add: floor_log2_def pq k_def)
  qed
qed

lemma round_half_even_err: "\<bar>of_int (round_half_even y) - y\<bar> \<le> 1 / 2"
proof -
  have "of_int \<lfloor>y\<rfloor> \<le> y" "y < of_int \<lfloor>y\<rfloor> + 1" by linarith+
  then show ?thesis
    by (auto simp add: round_half_even_def Let_def abs_le_iff)
qed

lemma round_half_even_int: "round_half_even (of_int n) = n"
  by (simp add: round_half_even_def)


lemma binary64_rel_err:
  assumes "pow2 (- 1022) \<le> x"
  shows "\<bar>binary64 x - x\<bar> \<le> x * pow2 (- 53)"
proof -
  have x: "0 < x" using assms pow2_pos[of "- 1022"] by linarith
  define e where "e = max (floor_log2 \<bar>x\<bar> - 52) (- 1074)"
  define m where "m = round_half_even (\<bar>x\<bar> / pow2 e)"
  have b: "binary64 x = of_int m * pow2 e"
    using x by (simp add: binary64_def Let_def e_def m_def)
  have "pow2 (floor_log2 x - 52) = pow2 (floor_log2 x) * pow2 (- 52)"
    using pow2_add[of "floor_log2 x" "- 52"] by simp
  also have "\<dots> \<le> x * pow2 (- 52)"
    using floor_log2_le[OF x] pow2_pos[of "- 52"] by (simp add: mult_right_mono)
  finally have e1: "pow2 (floor_log2 x - 52) \<le> x * pow2 (- 52)" .
  have "pow2 (- 1074) = pow2 (- 1022) * pow2 (- 52)"
    using pow2_add[of "- 1022" "- 52"] by simp
  also have "\<dots> \<le> x * pow2 (- 52)"
    using assms pow2_pos[of "- 52"] by (simp add: mult_right_mono)
  finally have e2: "pow2 (- 1074) \<le> x * pow2 (- 52)" .
  have pe: "pow2 e \<le> x * pow2 (- 52)"
    using e1 e2 x by (simp add: e_def max_def)
  have "\<bar>of_int m * pow2 e - x\<bar> = pow2 e * \<bar>of_int m - x / pow2 e\<bar>"
  proof -
    have "of_int m * pow2 e - x = pow2 e * (of_int m - x / pow2 e)"
      using pow2_pos[of e] by (simp add: field_simps)
    then show ?thesis using pow2_pos[of e] by (simp add: abs_mult)
  qed
  also have "\<dots> \<le> pow2 e * (1 / 2)"
    using round_half_even_err[of "x / pow2 e"] x pow2_pos[of e]
    by (intro mult_left_mono) (simp_all add: m_def)
  also have "\<dots> \<le> (x * pow2 (- 52)) * (1 / 2)"
    using pe by simp
  also have "\<dots> = x * pow2 (- 53)"
    using pow2_add[of "- 52" "- 1"] by (simp add: pow2_def)
  finally show ?thesis by (simp add: b)
qed

lemma binary64_of_int:
  assumes "0 \<le> n" and "n < 2 ^ 53"
  shows "binary64 (of_int n) = of_int n"
proof (cases "n = 0")
  case True
  then show ?thesis by (simp add: binary64_def)
next
  case False
  with assms have n: "0 < n" by simp
  then have x: "0 < (of_int n :: rat)" by simp
  define e where "e = max (floor_log2 \<bar>of_int n\<bar> - 52) (- 1074)"
  have "floor_log2 (of_int n) < 53"
  proof (rule ccontr)
    assume "\<not> floor_log2 (of_int n) < 53"
    then have "pow2 53 \<le> pow2 (floor_log2 (of_int n))" by (intro pow2_mono) simp
    also have "\<dots> \<le> of_int n" by (rule floor_log2_le[OF x])
    finally have "(2 :: rat) ^ 53 \<le> of_int n" by (simp add: pow2_def)
    then have "(2 :: int) ^ 53 \<le> n" by (metis of_int_le_iff of_int_numeral of_int_power)
    with assms(2) show False by simp
  qed
  then have e0: "e \<le> 0" using n by (simp add: e_def)
  have pe: "pow2 e = 1 / 2 ^ nat (- e)"
    using e0 by (cases "e = 0") (simp_all add: pow2_def)
  have "\<bar>of_int n\<bar> / pow2 e = (of_int (n * 2 ^ nat (- e)) :: rat)"
    using n by (simp add: pe)
  then have r: "round_half_even (\<bar>of_int n\<bar> / pow2 e) = n * 2 ^ nat (- e)"
    by (simp only: round_half_even_int)
  have "binary64 (of_int n) = of_int (round_half_even (\<bar>of_int n\<bar> / pow2 e)) * pow2 e"
    using n by (simp add: binary64_def Let_def e_def)
  also have "\<dots> = of_int (n * 2 ^ nat (- e)) * pow2 e" by (simp only: r)
  also have "\<dots> = of_int n" by (simp add: pe)
  finally show ?thesis .
qed


lemma uint64_of_float64_of_int:
  "0 \<le> v \<Longrightarrow> v < 2 ^ 64 \<Longrightarrow> uint64_of_float64 (of_int v) = Some v"
proof -
  assume v: "0 \<le> v" "v < 2 ^ 64"
  have "(of_int v :: rat) < of_int (2 ^ 64)" using v(2) by (simp only: of_int_less_iff)
  then have "(of_int v :: rat) < 2 ^ 64" by simp
  moreover have "(- 1 :: rat) < of_int v" using v(1) by simp
  ultimately show ?thesis using v(1) by (simp add: uint64_of_float64_def)
qed

lemma product_near:
  assumes N: "0 < N" "N \<le> 100" and M: "0 < M" "M < 2 ^ 44"
  shows "\<bar>binary64 (binary64 (of_int M) * binary64 (binary64 (of_int N) / 100))
          - of_int (M * N) / 100\<bar> < 1 / 100"
proof -
  define eps :: rat where "eps = pow2 (- 53)"
  have eps: "eps = 1 / 9007199254740992" by (simp add: eps_def pow2_def)
  define x :: rat where "x = of_int (M * N) / 100"
  define q :: rat where "q = of_int N / 100"
  define b where "b = binary64 q"
  define t where "t = of_int M * b"
  define p where "p = binary64 t"
  have a: "binary64 (of_int N) = of_int N" using N by (intro binary64_of_int) simp_all
  have c: "binary64 (of_int M) = of_int M"
    using M by (intro binary64_of_int) simp_all
  have tiny: "pow2 (- 1022) \<le> 1 / 200"
  proof -
    have "pow2 (- 1022) \<le> pow2 (- 8)" by (intro pow2_mono) simp
    also have "\<dots> \<le> 1 / 200" by (simp add: pow2_def)
    finally show ?thesis .
  qed
  have q1: "1 / 100 \<le> q" "q \<le> 1" using N by (simp_all add: q_def)
  have bq: "\<bar>b - q\<bar> \<le> q * eps"
    unfolding b_def eps_def using tiny q1 by (intro binary64_rel_err) linarith
  have Mr: "1 \<le> (of_int M :: rat)" using M by simp
  have M44: "(of_int M :: rat) < 2 ^ 44"
  proof -
    have "(of_int M :: rat) < of_int (2 ^ 44)" using M(2) by (simp only: of_int_less_iff)
    then show ?thesis by simp
  qed
  have xq: "x = of_int M * q" by (simp add: x_def q_def)
  have x_le: "x \<le> of_int M" using q1 Mr by (simp add: xq mult_left_le)
  have x_pos: "0 < x" using q1 Mr by (simp add: xq)
  have tx: "\<bar>t - x\<bar> \<le> x * eps"
  proof -
    have "\<bar>t - x\<bar> = of_int M * \<bar>b - q\<bar>"
      using Mr by (simp add: t_def xq right_diff_distrib[symmetric] abs_mult)
    also have "\<dots> \<le> of_int M * (q * eps)" using bq Mr by (intro mult_left_mono) simp_all
    finally show ?thesis by (simp add: xq mult.assoc)
  qed
  have t_lo: "1 / 200 \<le> t"
  proof -
    have "q * (1 - eps) \<le> b" using bq by (simp add: abs_le_iff algebra_simps)
    moreover have "1 / 200 \<le> q * (1 - eps)"
    proof -
      have "(1 / 100) * (1 - eps) \<le> q * (1 - eps)"
        using q1 by (intro mult_right_mono) (simp_all add: eps)
      then show ?thesis by (simp add: eps)
    qed
    ultimately have "1 / 200 \<le> b" by linarith
    then have "1 * (1 / 200) \<le> of_int M * b" using Mr by (intro mult_mono) simp_all
    then show ?thesis by (simp add: t_def)
  qed
  have pt: "\<bar>p - t\<bar> \<le> t * eps"
    unfolding p_def eps_def using tiny t_lo by (intro binary64_rel_err) linarith
  have t_hi: "t \<le> x + x * eps" using tx by (simp add: abs_le_iff)
  have "t * eps \<le> (x + x * eps) * eps" using t_hi by (intro mult_right_mono) (simp_all add: eps)
  with pt tx have "\<bar>p - x\<bar> \<le> (x + x * eps) * eps + x * eps" by linarith
  also have "\<dots> = x * (eps * (2 + eps))" by (simp add: algebra_simps)
  also have "\<dots> \<le> of_int M * (eps * (2 + eps))"
    using x_le by (intro mult_right_mono) (simp_all add: eps)
  also have "\<dots> < 2 ^ 44 * (eps * (2 + eps))"
    using M44 by (intro mult_strict_right_mono) (simp_all add: eps)
  also have "\<dots> < 1 / 100" by (simp add: eps)
  finally show ?thesis by (simp add: p_def t_def b_def q_def x_def a c)
qed


lemma powercap_of_near_ceiling:
  assumes N: "0 < N" "N \<le> 100" and M: "0 \<le> M" "M < 2 ^ 44"
  shows "\<exists>v. powercap_of M N = Some v \<and>
           (v = \<lceil>(of_int (M * N) :: rat) / 100\<rceil> \<or>
            (100 dvd M * N \<and> v = \<lceil>(of_int (M * N) :: rat) / 100\<rceil> + 1))"
proof (cases "M = 0")
  case True
  have "binary64 0 = 0" by (simp add: binary64_def)
  then have "powercap_of 0 N = Some 0"
    by (simp add: powercap_of_def uint64_of_float64_def)
  with True show ?thesis by simp
next
  case False
  with M have Mpos: "0 < M" by simp
  define p where "p = binary64 (binary64 (of_int M) * binary64 (binary64 (of_int N) / 100))"
  define x :: rat where "x = of_int (M * N) / 100"
  define k where "k = M * N div 100"
  define j where "j = M * N mod 100"
  have near: "\<bar>p - x\<bar> < 1 / 100"
    unfolding p_def x_def by (rule product_near[OF N Mpos M(2)])
  have j: "0 \<le> j" "j < 100" by (simp_all add: j_def)
  have MN: "M * N = 100 * k + j" by (simp add: k_def j_def)
  have x: "x = of_int k + of_int j / 100" by (simp add: x_def MN)
  have k0: "0 \<le> k" using Mpos N by (simp add: k_def pos_imp_zdiv_nonneg_iff)
  have kM: "k \<le> M"
  proof -
    have "M * N \<le> M * 100" using N Mpos by (intro mult_left_mono) simp_all
    then have "M * N div 100 \<le> M * 100 div 100" by (rule zdiv_mono1) simp
    then show ?thesis by (simp add: k_def)
  qed
  have cp: "powercap_of M N = uint64_of_float64 (of_int \<lceil>p\<rceil>)"
    by (simp add: powercap_of_def p_def)
  show ?thesis
  proof (cases "j = 0")
    case True
    then have xk: "x = of_int k" by (simp add: x)
    then have cx: "\<lceil>x\<rceil> = k" by simp
    have dv: "100 dvd M * N" using True by (simp add: j_def dvd_eq_mod_eq_0)
    from near xk have pk: "of_int k - 1 / 100 < p" "p < of_int k + 1 / 100"
      by linarith+
    show ?thesis
    proof (cases "p \<le> of_int k")
      case True
      with pk have "\<lceil>p\<rceil> = k" by (intro ceiling_unique) linarith+
      moreover have "uint64_of_float64 (of_int k) = Some k"
        using k0 kM M by (intro uint64_of_float64_of_int) simp_all
      ultimately show ?thesis using cx by (simp add: cp x_def)
    next
      case False
      with pk have "of_int (k + 1) - 1 < p" "p \<le> of_int (k + 1)" by simp_all
      then have "\<lceil>p\<rceil> = k + 1" by (rule ceiling_unique)
      moreover have "uint64_of_float64 (of_int (k + 1)) = Some (k + 1)"
        using k0 kM M by (intro uint64_of_float64_of_int) simp_all
      ultimately show ?thesis using cx dv by (simp add: cp x_def)
    qed
  next
    case False
    with j have j1: "1 \<le> j" "j \<le> 99" by simp_all
    then have jr: "1 / 100 \<le> (of_int j :: rat) / 100" "(of_int j :: rat) / 100 \<le> 99 / 100"
      by simp_all
    have "of_int (k + 1) - 1 < x" "x \<le> of_int (k + 1)" using jr x by simp_all
    then have cx: "\<lceil>x\<rceil> = k + 1" by (rule ceiling_unique)
    from near have "x - 1 / 100 < p" "p < x + 1 / 100" by linarith+
    with jr x have "of_int k < p" "p < of_int k + 1" by linarith+
    then have "of_int (k + 1) - 1 < p" "p \<le> of_int (k + 1)" by simp_all
    then have "\<lceil>p\<rceil> = k + 1" by (rule ceiling_unique)
    moreover have "uint64_of_float64 (of_int (k + 1)) = Some (k + 1)"
      using k0 kM M by (intro uint64_of_float64_of_int) simp_all
    ultimately show ?thesis using cx by (simp add: cp x_def)
  qed
qed

subsection \<open>The files written by \<open>capNode\<close>\<close>

lemma digits_value_nonneg_aux:
  "list_all is_digit s \<Longrightarrow> 0 \<le> n \<Longrightarrow>
     0 \<le> foldl (\<lambda>n c. 10 * n + (of_char c - 48)) (n :: int) s"
proof (induction s arbitrary: n)
  case Nil
  then show ?case by simp
next
  case (Cons c s)
  then have "0 \<le> 10 * n + (of_char c - 48)" by (simp add: is_digit_def)
  with Cons show ?case by simp
qed

lemma ParseUint_nonneg: "ParseUint s = Some n \<Longrightarrow> 0 \<le> n"
  using digits_value_nonneg_aux[of s 0]
  by (auto simp add: ParseUint_def digits_value_def split: if_splits)

lemma maxPower_nonneg: "maxPower fs f = Inr m \<Longrightarrow> 0 \<le> m"
  by (auto simp add: maxPower_def ParseUint_nonneg split: option.splits)

lemma map_of_rewrite:
  "map_of (map (\<lambda>(g, old). if g = f then (g, t) else (g, old)) xs) g =
     (if g = f then (if map_of xs f = None then None else Some t) else map_of xs g)"
proof (induction xs arbitrary: g)
  case Nil
  then show ?case by simp
next
  case (Cons a xs)
  obtain h old where a: "a = (h, old)" by (cases a) auto
  show ?case
  proof (cases "h = f")
    case True
    then show ?thesis using Cons.IH[of g] by (simp add: a)
  next
    case False
    then show ?thesis using Cons.IH[of g] Cons.IH[of f] by (simp add: a)
  qed
qed

lemma content_WriteFile:
  "content (WriteFile fs f t) g =
     (if g = f then (if content fs f = None then None else Some t) else content fs g)"
  by (simp add: content_def WriteFile_def map_of_rewrite)

lemma WriteFile_fields [simp]:
  "read_only (WriteFile fs f t) = read_only fs" "listing (WriteFile fs f t) = listing fs"
  by (simp_all add: WriteFile_def)

lemma file_names_differ: "maxPowerFileLongWindow \<noteq> powerLimitFileLongWindow"
  by (simp add: maxPowerFileLongWindow_def powerLimitFileLongWindow_def)

lemma maxPower_WriteFile_limit:
  "maxPower (WriteFile fs (z, powerLimitFileLongWindow) t) (name, maxPowerFileLongWindow) =
   maxPower fs (name, maxPowerFileLongWindow)"
  using file_names_differ by (simp add: maxPower_def content_WriteFile)

lemma capNode_files_zone:
  assumes N: "0 < N" "N \<le> 100"
  shows "distinct names \<Longrightarrow>
    (\<forall>name\<in>set names. \<forall>m. maxPower fs (name, maxPowerFileLongWindow) = Inr m \<longrightarrow> m < 2 ^ 44) \<Longrightarrow>
    \<exists>fs'. capNode_files fs N names = Inr fs' \<and> read_only fs' = read_only fs \<and>
      (\<forall>name. maxPower fs' (name, maxPowerFileLongWindow) = maxPower fs (name, maxPowerFileLongWindow)) \<and>
      (\<forall>name. name \<notin> set names \<longrightarrow>
         content fs' (name, powerLimitFileLongWindow) = content fs (name, powerLimitFileLongWindow)) \<and>
      (\<forall>name. content fs (name, powerLimitFileLongWindow) \<noteq> None \<longrightarrow>
         content fs' (name, powerLimitFileLongWindow) \<noteq> None) \<and>
      (\<forall>zone\<in>set names. \<forall>M. zone_ok fs zone \<and> maxPower fs (zone, maxPowerFileLongWindow) = Inr M \<longrightarrow>
         (\<exists>v. content fs' (zone, powerLimitFileLongWindow) = Some (FormatUint v) \<and> near_ceiling M N v))"
proof (induction names arbitrary: fs)
  case Nil
  then show ?case by simp
next
  case (Cons name names)
  let ?maxF = "(name, maxPowerFileLongWindow)" and ?limF = "(name, powerLimitFileLongWindow)"
  have dn: "distinct names" and nn: "name \<notin> set names" using Cons.prems(1) by simp_all
  have bound: "\<forall>n\<in>set names. \<forall>m. maxPower fs (n, maxPowerFileLongWindow) = Inr m \<longrightarrow> m < 2 ^ 44"
    using Cons.prems(2) by simp
  show ?case
  proof (cases "zone_ok fs name \<and> (\<exists>M. maxPower fs ?maxF = Inr M)")
    case True
    then obtain M where zk: "zone_ok fs name" and mp: "maxPower fs ?maxF = Inr M" by blast
    from Cons.prems(2) mp have M44: "M < 2 ^ 44" by simp
    from powercap_of_near_ceiling[OF N maxPower_nonneg[OF mp] M44]
    obtain v where pv: "powercap_of M N = Some v" and nv: "near_ceiling M N v"
      by (auto simp add: near_ceiling_def)
    let ?fs1 = "WriteFile fs ?limF (FormatUint v)"
    have cz: "capZone fs ?limF v = Inr ?fs1" using zk by (simp add: capZone_def zone_ok_def)
    have step: "capNode_files fs N (name # names) = capNode_files ?fs1 N names"
      using zk mp pv cz by (simp add: zone_ok_def Let_def)
    have bound1: "\<forall>n\<in>set names. \<forall>m. maxPower ?fs1 (n, maxPowerFileLongWindow) = Inr m \<longrightarrow> m < 2 ^ 44"
      using bound by (simp add: maxPower_WriteFile_limit)
    from Cons.IH[OF dn bound1] obtain fs' where
      r: "capNode_files ?fs1 N names = Inr fs'" and ro: "read_only fs' = read_only ?fs1"
      and mx: "\<forall>n. maxPower fs' (n, maxPowerFileLongWindow) = maxPower ?fs1 (n, maxPowerFileLongWindow)"
      and keep: "\<forall>n. n \<notin> set names \<longrightarrow>
         content fs' (n, powerLimitFileLongWindow) = content ?fs1 (n, powerLimitFileLongWindow)"
      and ex: "\<forall>n. content ?fs1 (n, powerLimitFileLongWindow) \<noteq> None \<longrightarrow>
         content fs' (n, powerLimitFileLongWindow) \<noteq> None"
      and zs: "\<forall>zone\<in>set names. \<forall>M. zone_ok ?fs1 zone \<and>
           maxPower ?fs1 (zone, maxPowerFileLongWindow) = Inr M \<longrightarrow>
         (\<exists>v. content fs' (zone, powerLimitFileLongWindow) = Some (FormatUint v) \<and> near_ceiling M N v)"
      by blast
    have here: "content fs' ?limF = Some (FormatUint v)"
      using keep nn zk by (simp add: content_WriteFile zone_ok_def)
    have zk1: "\<And>z. zone_ok fs z \<Longrightarrow> zone_ok ?fs1 z"
      by (auto simp add: zone_ok_def content_WriteFile)
    have f1: "capNode_files fs N (name # names) = Inr fs'" using step r by simp
    have f2: "read_only fs' = read_only fs" using ro by simp
    have f3: "\<forall>n. maxPower fs' (n, maxPowerFileLongWindow) = maxPower fs (n, maxPowerFileLongWindow)"
      using mx by (simp add: maxPower_WriteFile_limit)
    have f4: "\<forall>n. n \<notin> set (name # names) \<longrightarrow>
          content fs' (n, powerLimitFileLongWindow) = content fs (n, powerLimitFileLongWindow)"
      using keep by (simp add: content_WriteFile)
    have f5: "\<forall>n. content fs (n, powerLimitFileLongWindow) \<noteq> None \<longrightarrow>
          content fs' (n, powerLimitFileLongWindow) \<noteq> None"
    proof (intro allI impI)
      fix n
      assume "content fs (n, powerLimitFileLongWindow) \<noteq> None"
      then have "content ?fs1 (n, powerLimitFileLongWindow) \<noteq> None"
        by (auto simp add: content_WriteFile)
      with ex show "content fs' (n, powerLimitFileLongWindow) \<noteq> None" by blast
    qed
    have f6: "\<forall>zone\<in>set (name # names). \<forall>M. zone_ok fs zone \<and>
          maxPower fs (zone, maxPowerFileLongWindow) = Inr M \<longrightarrow>
          (\<exists>v. content fs' (zone, powerLimitFileLongWindow) = Some (FormatUint v) \<and>
               near_ceiling M N v)"
    proof (intro ballI allI impI)
      fix zone M'
      assume zin: "zone \<in> set (name # names)"
        and zc: "zone_ok fs zone \<and> maxPower fs (zone, maxPowerFileLongWindow) = Inr M'"
      show "\<exists>v. content fs' (zone, powerLimitFileLongWindow) = Some (FormatUint v) \<and> near_ceiling M' N v"
      proof (cases "zone = name")
        case True
        with zc mp have "M' = M" by simp
        with here nv True show ?thesis by blast
      next
        case False
        with zin have "zone \<in> set names" by simp
        moreover have "zone_ok ?fs1 zone" using zc zk1 by blast
        moreover have "maxPower ?fs1 (zone, maxPowerFileLongWindow) = Inr M'"
          using zc by (simp add: maxPower_WriteFile_limit)
        ultimately show ?thesis using zs by blast
      qed
    qed
    show ?thesis by (rule exI[of _ fs']) (intro conjI f1 f2 f3 f4 f5 f6)
  next
    case False
    have step: "capNode_files fs N (name # names) = capNode_files fs N names"
    proof (cases "length (split_on CHR '':'' name) = 2 \<and> split_on CHR '':'' name ! 0 = raplPrefixCPU")
      case fields: False
      then show ?thesis by (auto simp add: Let_def)
    next
      case fields: True
      show ?thesis
      proof (cases "maxPower fs ?maxF")
        case (Inl e)
        with fields show ?thesis by (simp add: Let_def)
      next
        case (Inr M)
        with Cons.prems(2) have M44: "M < 2 ^ 44" by simp
        from powercap_of_near_ceiling[OF N maxPower_nonneg[OF Inr] M44]
        obtain v where pv: "powercap_of M N = Some v" by blast
        from False Inr fields have "\<not> zone_ok fs name" by simp
        with fields have "capZone fs ?limF v = Inl NotExist \<or> capZone fs ?limF v = Inl WriteFileError"
          by (auto simp add: zone_ok_def capZone_def)
        with fields Inr pv show ?thesis by (auto simp add: Let_def)
      qed
    qed
    from Cons.IH[OF dn bound] obtain fs' where
      r: "capNode_files fs N names = Inr fs'" and ro: "read_only fs' = read_only fs"
      and mx: "\<forall>n. maxPower fs' (n, maxPowerFileLongWindow) = maxPower fs (n, maxPowerFileLongWindow)"
      and keep: "\<forall>n. n \<notin> set names \<longrightarrow>
         content fs' (n, powerLimitFileLongWindow) = content fs (n, powerLimitFileLongWindow)"
      and ex: "\<forall>n. content fs (n, powerLimitFileLongWindow) \<noteq> None \<longrightarrow>
         content fs' (n, powerLimitFileLongWindow) \<noteq> None"
      and zs: "\<forall>zone\<in>set names. \<forall>M. zone_ok fs zone \<and>
           maxPower fs (zone, maxPowerFileLongWindow) = Inr M \<longrightarrow>
         (\<exists>v. content fs' (zone, powerLimitFileLongWindow) = Some (FormatUint v) \<and> near_ceiling M N v)"
      by blast
    have f1: "capNode_files fs N (name # names) = Inr fs'" using step r by simp
    have f4: "\<forall>n. n \<notin> set (name # names) \<longrightarrow>
          content fs' (n, powerLimitFileLongWindow) = content fs (n, powerLimitFileLongWindow)"
      using keep by simp
    have f6: "\<forall>zone\<in>set (name # names). \<forall>M. zone_ok fs zone \<and>
          maxPower fs (zone, maxPowerFileLongWindow) = Inr M \<longrightarrow>
          (\<exists>v. content fs' (zone, powerLimitFileLongWindow) = Some (FormatUint v) \<and>
               near_ceiling M N v)"
      using zs False by auto
    show ?thesis by (rule exI[of _ fs']) (intro conjI f1 ro mx f4 ex f6)
  qed
qed

text \<open>
  Claim C5, amended. For a percentage \<open>N\<close> with \<open>0 < N \<le> 100\<close>, a directory whose entries
  have distinct names and whose readable maximum-power values are below \<open>2^44\<close>, and a
  zone \<open>intel-rapl:X\<close> with maximum power \<open>M\<close> and a writable power-limit file: \<open>capNode\<close>
  returns no error and leaves in the power-limit file of the zone the decimal text of
  either \<open>ceil (M * N / 100)\<close> or, only when \<open>100\<close> divides \<open>M * N\<close>, that value plus one.
\<close>

theorem capNode_writes_ceiling_or_one_above:
  assumes "0 < N" and "N \<le> 100"
    and "listing fs = Some names" and "distinct names"
    and "\<forall>name\<in>set names. \<forall>m.
           maxPower fs (name, maxPowerFileLongWindow) = Inr m \<longrightarrow> m < 2 ^ 44"
    and "zone \<in> set names" and "zone_ok fs zone"
    and "maxPower fs (zone, maxPowerFileLongWindow) = Inr M"
  shows "\<exists>fs' v. capNode fs N = (None, fs') \<and>
           content fs' (zone, powerLimitFileLongWindow) = Some (FormatUint v) \<and>
           (v = \<lceil>(of_int (M * N) :: rat) / 100\<rceil> \<or>
            (100 dvd M * N \<and> v = \<lceil>(of_int (M * N) :: rat) / 100\<rceil> + 1))"
proof -
  from capNode_files_zone[OF assms(1,2,4,5)]
  obtain fs' where r: "capNode_files fs N names = Inr fs'"
    and z: "\<forall>zone\<in>set names. \<forall>M. zone_ok fs zone \<and>
              maxPower fs (zone, maxPowerFileLongWindow) = Inr M \<longrightarrow>
              (\<exists>v. content fs' (zone, powerLimitFileLongWindow) = Some (FormatUint v) \<and>
                   near_ceiling M N v)"
    by blast
  from z assms(6,7,8) obtain v
    where v: "content fs' (zone, powerLimitFileLongWindow) = Some (FormatUint v)"
      and n: "near_ceiling M N v"
    by blast
  have "capNode fs N = (None, fs')"
    using assms(1,2,3) r by (simp add: capNode_def)
  with v n show ?thesis unfolding near_ceiling_def by blast
qed

theorem capNode_writes_ceiling_or_one_above_witness:
  "\<exists>fs' v. capNode (sysfs_one_zone ''1500000'') 7 = (None, fs') \<and>
     content fs' (''intel-rapl:0'', powerLimitFileLongWindow) = Some (FormatUint v) \<and>
     (v = \<lceil>(of_int (1500000 * 7) :: rat) / 100\<rceil> \<or>
      (100 dvd (1500000 * 7 :: int) \<and> v = \<lceil>(of_int (1500000 * 7) :: rat) / 100\<rceil> + 1))"
proof -
  have l: "listing (sysfs_one_zone ''1500000'') = Some [''intel-rapl:0'', ''intel-rapl:0:0'']"
    by (simp add: sysfs_one_zone_def)
  have d: "distinct [''intel-rapl:0'', ''intel-rapl:0:0'']" by simp
  have m: "maxPower (sysfs_one_zone ''1500000'') (''intel-rapl:0'', maxPowerFileLongWindow) =
             Inr 1500000"
    by code_simp
  have m': "maxPower (sysfs_one_zone ''1500000'') (''intel-rapl:0:0'', maxPowerFileLongWindow) =
             Inl ReadFileError"
    by code_simp
  have b: "\<forall>name\<in>set [''intel-rapl:0'', ''intel-rapl:0:0'']. \<forall>m.
             maxPower (sysfs_one_zone ''1500000'') (name, maxPowerFileLongWindow) = Inr m \<longrightarrow>
             m < 2 ^ 44"
    using m m' by simp
  have k: "zone_ok (sysfs_one_zone ''1500000'') ''intel-rapl:0''"
    by code_simp
  show ?thesis
    using capNode_writes_ceiling_or_one_above[of 7 "sysfs_one_zone ''1500000''"
        "[''intel-rapl:0'', ''intel-rapl:0:0'']" "''intel-rapl:0''" 1500000, OF _ _ l d b _ k m]
    by simp
qed

lemma capNode_rejects:
  "percentage \<le> 0 \<or> percentage > 100 \<Longrightarrow>
     capNode fs percentage = (Some (InvalidPercentage percentage), fs)"
  by (simp add: capNode_def)

lemma capNode_accepts_only_in_range:
  "fst (capNode fs percentage) = None \<Longrightarrow> 0 < percentage \<and> percentage \<le> 100"
  by (auto simp add: capNode_def split: if_splits)

text \<open>
  Claim C6. For a percentage outside \<open>0 < N \<le> 100\<close>, \<open>capNode\<close> returns the
  invalid-percentage error and leaves every file as it was, and the endpoint answers with
  status 400; an answer with status 200 is given only for \<open>0 < N \<le> 100\<close>.
\<close>

theorem powercapEndpoint_accepts_only_valid_percentage:
  "(percentage \<le> 0 \<or> percentage > 100 \<longrightarrow>
      capNode fs percentage = (Some (InvalidPercentage percentage), fs) \<and>
      powercapEndpoint fs (Cap percentage) =
        (\<lparr>status_code = 400, body = ErrorText (InvalidPercentage percentage)\<rparr>, fs)) \<and>
   (status_code (fst (powercapEndpoint fs (Cap percentage))) = 200 \<longrightarrow>
      0 < percentage \<and> percentage \<le> 100)"
proof (intro conjI impI)
  assume out: "percentage \<le> 0 \<or> percentage > 100"
  then show "capNode fs percentage = (Some (InvalidPercentage percentage), fs)"
    by (rule capNode_rejects)
  then show "powercapEndpoint fs (Cap percentage) =
        (\<lparr>status_code = 400, body = ErrorText (InvalidPercentage percentage)\<rparr>, fs)"
    by (simp add: powercapEndpoint_def)
next
  assume ok: "status_code (fst (powercapEndpoint fs (Cap percentage))) = 200"
  have "fst (capNode fs percentage) = None"
  proof (cases "capNode fs percentage")
    case (Pair e fs')
    with ok show ?thesis by (cases e) (simp_all add: powercapEndpoint_def)
  qed
  then have r: "0 < percentage \<and> percentage \<le> 100" by (rule capNode_accepts_only_in_range)
  from r show "0 < percentage" by simp
  from r show "percentage \<le> 100" by simp
qed

lemma powercapEndpoint_one_zone_50:
  "powercapEndpoint (sysfs_one_zone ''1500000'') (Cap 50) =
     (\<lparr>status_code = 200, body = CappedNodeAt 50\<rparr>,
      \<lparr>listing = Some [''intel-rapl:0'', ''intel-rapl:0:0''],
       regular_files = [((''intel-rapl:0'', ''constraint_0_max_power_uw''), ''1500000''),
                        ((''intel-rapl:0'', ''constraint_0_power_limit_uw''), ''750000'')],
       read_only = []\<rparr>)"
  by code_simp

theorem powercapEndpoint_accepts_only_valid_percentage_witness:
  "capNode (sysfs_one_zone ''1500000'') 101 =
     (Some (InvalidPercentage 101), sysfs_one_zone ''1500000'') \<and>
   powercapEndpoint (sysfs_one_zone ''1500000'') (Cap 0) =
     (\<lparr>status_code = 400, body = ErrorText (InvalidPercentage 0)\<rparr>, sysfs_one_zone ''1500000'') \<and>
   status_code (fst (powercapEndpoint (sysfs_one_zone ''1500000'') (Cap 50))) = 200 \<and>
   (0 :: int) < 50 \<and> (50 :: int) \<le> 100"
  using
    powercapEndpoint_accepts_only_valid_percentage [of 101 "sysfs_one_zone ''1500000''"]
    powercapEndpoint_accepts_only_valid_percentage [of 0 "sysfs_one_zone ''1500000''"]
    powercapEndpoint_accepts_only_valid_percentage [of 50 "sysfs_one_zone ''1500000''"]
    powercapEndpoint_one_zone_50
  by simp

section \<open>Properties of \<open>ProactiveClusterwideCapRanked\<close>\<close>

lemma ranked_take_call:
  assumes "\<not> Shutdown s"
  shows "\<exists>s'. ranked_take ops offer i task s =
     Ok (s', LaunchTasks (offer_id offer) [fst (newTask s offer task)] DefaultFilter)"
proof -
  let ?s1 = "if \<not> isCapping s then startCapping (s\<lparr>isCapping := True\<rparr>) else s"
  obtain tempCap c' where f: "FCFSDeterminedCap ops (capper ?s1) (totalPower ?s1) task = (tempCap, c')"
    by (cases "FCFSDeterminedCap ops (capper ?s1) (totalPower ?s1) task") auto
  show ?thesis
    using assms f
    by (cases tempCap)
       (auto simp add: ranked_take_def Let_def ranked_newTask_def newTask_def startCapping_def
        decrement_Instances_def close_Shutdown_def startRecapping_def stopCapping_def
        split: prod.splits)
qed

text \<open>
  The scan from index \<open>k\<close> on: it ends at the first task of the queue, from \<open>k\<close> on, whose
  host requirement the offer meets and which \<open>takeOffer\<close> accepts, and launches that one
  instance; without such a task it launches nothing.
\<close>

lemma ranked_scan_find:
  assumes "\<not> Shutdown s" and "n = tasks_len s" and "n \<le> length (tasks_array s)"
  shows "\<exists>s'. ranked_scan ops offer [k..<n] s =
     Ok (s', case find (\<lambda>t. prefix (Host t) (hostname offer) \<and> ranked_takeOffer offer t)
                    (drop k (tasks s)) of
               None \<Rightarrow> None
             | Some t \<Rightarrow>
                 Some (LaunchTasks (offer_id offer) [fst (newTask s offer t)] DefaultFilter))"
proof (induction "n - k" arbitrary: k)
  case 0
  then have nk: "n \<le> k" by simp
  have e: "[k..<n] = []" using nk by simp
  have "drop k (tasks s) = []" using nk assms by (simp add: tasks_def)
  then show ?case by (simp add: e)
next
  case (Suc m)
  then have k: "k < n" by simp
  then have u: "[k..<n] = k # [Suc k..<n]" by (simp add: upt_rec)
  have d: "drop k (tasks s) = tasks_array s ! k # drop (Suc k) (tasks s)"
    using k assms by (simp add: tasks_def Cons_nth_drop_Suc[symmetric])
  from Suc have ih: "\<exists>s'. ranked_scan ops offer [Suc k..<n] s =
     Ok (s', case find (\<lambda>t. prefix (Host t) (hostname offer) \<and> ranked_takeOffer offer t)
                    (drop (Suc k) (tasks s)) of
               None \<Rightarrow> None
             | Some t \<Rightarrow>
                 Some (LaunchTasks (offer_id offer) [fst (newTask s offer t)] DefaultFilter))"
    by simp
  show ?case
  proof (cases "prefix (Host (tasks_array s ! k)) (hostname offer) \<and>
                ranked_takeOffer offer (tasks_array s ! k)")
    case True
    from ranked_take_call[OF assms(1), of ops offer k "tasks_array s ! k"]
    obtain s' where "ranked_take ops offer k (tasks_array s ! k) s =
       Ok (s', LaunchTasks (offer_id offer) [fst (newTask s offer (tasks_array s ! k))] DefaultFilter)"
      by blast
    with True show ?thesis by (simp add: u d Let_def)
  next
    case False
    with ih show ?thesis by (auto simp add: u d Let_def)
  qed
qed

lemma ranked_offer_call:
  assumes "tasks_len s \<le> length (tasks_array s)"
  shows "\<exists>s'. ranked_offer ops s offer =
     Ok (s', if Shutdown s then DeclineOffer (offer_id offer) LongFilter
             else case find (\<lambda>t. prefix (Host t) (hostname offer) \<and> ranked_takeOffer offer t)
                            (tasks s) of
               None \<Rightarrow> DeclineOffer (offer_id offer) DefaultFilter
             | Some t \<Rightarrow>
                 LaunchTasks (offer_id offer) [fst (newTask s offer t)] DefaultFilter)"
proof (cases "Shutdown s")
  case True
  then show ?thesis by (simp add: ranked_offer_def)
next
  case False
  from ranked_scan_find[OF False refl assms, of ops offer 0]
  show ?thesis using False by (auto simp add: ranked_offer_def split: option.splits)
qed


text \<open>
  Claim C9. For every offer, \<open>ResourceOffers\<close> makes one call on the driver. When
  \<open>Shutdown\<close> is open, it launches exactly one instance, of the first task of the queue
  whose host requirement the offer meets and which \<open>takeOffer\<close> accepts, whatever else
  the offer could hold; and it declines the offer when there is no such task. At most
  one instance is launched on an offer.
\<close>

theorem ranked_offer_launches_at_most_one_instance:
  assumes "tasks_len s \<le> length (tasks_array s)"
  shows "\<exists>s'. ranked_offer ops s offer =
     Ok (s', if Shutdown s then DeclineOffer (offer_id offer) LongFilter
             else case find (\<lambda>t. prefix (Host t) (hostname offer) \<and> ranked_takeOffer offer t)
                            (tasks s) of
               None \<Rightarrow> DeclineOffer (offer_id offer) DefaultFilter
             | Some t \<Rightarrow>
                 LaunchTasks (offer_id offer) [fst (newTask s offer t)] DefaultFilter)"
  using assms by (rule ranked_offer_call)

text \<open>
  An offer of 10 cpus, for a task of 1 cpu with 5 instances to launch: one instance is
  launched.
\<close>

theorem ranked_offer_launches_at_most_one_instance_witness:
  "tasks_len (NewProactiveClusterwideCapRanked () ((\<lambda>a. 0)(0 := 5)) [task_of ''t'' 1 1 1 0] False)
     \<le> length (tasks_array
          (NewProactiveClusterwideCapRanked () ((\<lambda>a. 0)(0 := 5)) [task_of ''t'' 1 1 1 0] False)) \<and>
   (\<exists>s'. ranked_offer (constant_capper 50)
            (NewProactiveClusterwideCapRanked () ((\<lambda>a. 0)(0 := 5)) [task_of ''t'' 1 1 1 0] False)
            (offer_of ''o1'' 10 10 10) =
          Ok (s', LaunchTasks ''o1''
                [\<lparr>ti_name = ''t-5'', ti_task_id = ''electron-t-5'', ti_slave_id = ''agent-1'',
                  ti_resources = [(''cpus'', 1), (''mem'', 1), (''watts'', 1)],
                  ti_command = ''cmd'', ti_image = ''img''\<rparr>] DefaultFilter))"
  using ranked_offer_launches_at_most_one_instance
    [of "NewProactiveClusterwideCapRanked () ((\<lambda>a. 0)(0 := 5)) [task_of ''t'' 1 1 1 0] False"
        "constant_capper 50" "offer_of ''o1'' 10 10 10"]
  by (simp add: NewProactiveClusterwideCapRanked_def task_of_def offer_of_def tasks_def
      ranked_takeOffer_def OfferAgg_def sum_named_def newTask_def Let_def FormatInt_def
      FormatUint.simps)



section \<open>Properties of \<open>BinPackSortedWatts\<close> and \<open>BPSWClassMapWatts\<close>\<close>


lemma binpack_instances_preserves:
  assumes step: "\<And>sv sv'. P sv \<Longrightarrow> binpack_fits (ignoreWatts (fst sv)) agg (snd sv) task w \<Longrightarrow>
       binpack_place offer i task w sv = Ok sv' \<Longrightarrow> P sv'"
  shows "P sv \<Longrightarrow> binpack_instances agg offer i task w sv = Ok sv' \<Longrightarrow> P sv'"
  using step
proof (induction agg offer i task w sv rule: binpack_instances.induct)
  case (1 agg offer i task w sv)
  note inv = "1.prems"(1) and res = "1.prems"(2) and stp = "1.prems"(3)
  show ?case
  proof (cases "instances (fst sv) (Instances task) > 0 \<and>
                binpack_fits (ignoreWatts (fst sv)) agg (snd sv) task w")
    case False
    with res have "sv' = sv"
      by (auto simp add: binpack_instances.simps[of agg offer i task w sv] split: if_splits)
    with inv show ?thesis by simp
  next
    case True
    with res obtain sv1 where p: "binpack_place offer i task w sv = Ok sv1"
      and r: "binpack_instances agg offer i task w sv1 = Ok sv'"
      by (auto simp add: binpack_instances.simps[of agg offer i task w sv] split: outcome.splits)
    have "P sv1" using inv True p by (auto intro: stp)
    from "1.IH"[OF _ _ p this r stp] True show ?thesis by simp
  qed
qed

lemma binpack_range_preserves:
  assumes step: "\<And>i task sv sv'. P sv \<Longrightarrow>
       binpack_fits (ignoreWatts (fst sv)) agg (snd sv) task (read task) \<Longrightarrow>
       binpack_place offer i task (read task) sv = Ok sv' \<Longrightarrow> P sv'"
  shows "P sv \<Longrightarrow> binpack_range agg offer read idx sv = Ok sv' \<Longrightarrow> P sv'"
proof (induction idx arbitrary: sv)
  case Nil
  then show ?case by simp
next
  case (Cons i idx)
  let ?task = "tasks_array (fst sv) ! i"
  show ?case
  proof (cases "Host ?task \<noteq> '''' \<and> \<not> prefix (Host ?task) (hostname offer)")
    case True
    with Cons show ?thesis by (simp add: Let_def)
  next
    case False
    with Cons.prems(2) obtain sv1 where
      a: "binpack_instances agg offer i ?task (read ?task) sv = Ok sv1"
      and b: "binpack_range agg offer read idx sv1 = Ok sv'"
      by (auto simp add: Let_def split: outcome.splits)
    have "P sv1"
    proof (rule binpack_instances_preserves[where P = P, OF _ Cons.prems(1) a])
      fix sv sv' :: "'a BinPackSortedWatts \<times> 'a offer_vars"
      assume "P sv" "binpack_fits (ignoreWatts (fst sv)) agg (snd sv) ?task (read ?task)"
        "binpack_place offer i ?task (read ?task) sv = Ok sv'"
      then show "P sv'" by (rule step)
    qed
    with Cons.IH b show ?thesis by blast
  qed
qed




lemma binpack_place_shutdown:
  assumes "binpack_place offer i task w (s, v) = Ok (s', v')"
    and "tasks_len s = 0 \<longrightarrow> Shutdown s"
  shows "tasks_len s' = 0 \<longrightarrow> Shutdown s'"
  using assms
  by (auto simp add: binpack_place_def newTask_def Let_def decrement_Instances_def
      remove_if_scheduled_def remove_by_append_def close_Shutdown_def
      split: if_splits outcome.splits)


lemma binpack_offer_shutdown:
  assumes "binpack_offer read s offer = Ok (s', call)" and "tasks_len s = 0 \<longrightarrow> Shutdown s"
  shows "tasks_len s' = 0 \<longrightarrow> Shutdown s'"
proof (cases "Shutdown s")
  case True
  with assms show ?thesis by (simp add: binpack_offer_def)
next
  case False
  with assms(1) obtain v where
    r: "binpack_range (OfferAgg offer) offer read [0..<tasks_len s] (s, offer_vars_init) = Ok (s', v)"
    by (auto simp add: binpack_offer_def split: outcome.splits if_splits)
  have "tasks_len (fst (s', v)) = 0 \<longrightarrow> Shutdown (fst (s', v))"
  proof (rule binpack_range_preserves[where P = "\<lambda>sv. tasks_len (fst sv) = 0 \<longrightarrow> Shutdown (fst sv)", OF _ _ r])
    fix i task and sv sv' :: "'a BinPackSortedWatts \<times> 'a offer_vars"
    assume "tasks_len (fst sv) = 0 \<longrightarrow> Shutdown (fst sv)"
      and "binpack_place offer i task (read task) sv = Ok sv'"
    then show "tasks_len (fst sv') = 0 \<longrightarrow> Shutdown (fst sv')"
      using binpack_place_shutdown[of offer i task "read task" "fst sv" "snd sv" "fst sv'" "snd sv'"]
      by simp
  next
    show "tasks_len (fst (s, offer_vars_init)) = 0 \<longrightarrow> Shutdown (fst (s, offer_vars_init))"
      using assms(2) by simp
  qed
  then show ?thesis by simp
qed

lemma binpack_offers_shutdown:
  "binpack_offers read s offers = Ok (s', calls) \<Longrightarrow> (tasks_len s = 0 \<longrightarrow> Shutdown s) \<Longrightarrow>
     tasks_len s' = 0 \<longrightarrow> Shutdown s'"
proof (induction offers arbitrary: s calls)
  case Nil
  then show ?case by simp
next
  case (Cons offer offers)
  from Cons.prems(1) obtain s1 c cs where
    a: "binpack_offer (read offer) s offer = Ok (s1, c)"
    and b: "binpack_offers read s1 offers = Ok (s', cs)"
    by (auto split: outcome.splits)
  show ?case by (rule Cons.IH[OF b binpack_offer_shutdown[OF a Cons.prems(2)]])
qed

lemma binpack_offers_closed:
  "Shutdown s \<Longrightarrow> binpack_offers read s offers =
     Ok (s, map (\<lambda>offer. DeclineOffer (offer_id offer) LongFilter) offers)"
  by (induction offers) (simp_all add: binpack_offer_def)

lemma binpack_offers_append:
  "binpack_offers read s (xs @ ys) =
     (case binpack_offers read s xs of
        Panic e \<Rightarrow> Panic e
      | Ok (s1, c1) \<Rightarrow>
          (case binpack_offers read s1 ys of
             Panic e \<Rightarrow> Panic e
           | Ok (s2, c2) \<Rightarrow> Ok (s2, c1 @ c2)))"
  by (induction xs arbitrary: s) (auto split: outcome.splits)








lemmas binpack_eval =
  ResourceOffers_def ResourceOffers_ClassMapWatts_def binpack_offer_def OfferAgg_def sum_named_def
  offer_vars_init_def binpack_instances.simps binpack_fits_def binpack_place_def newTask_def
  Let_def decrement_Instances_def remove_if_scheduled_def remove_by_append_def
  close_Shutdown_def NewBinPackSortedWatts_def task_of_def offer_of_def tasks_def
  FormatInt_def FormatUint.simps upt_rec nodeClass_def ClassToWatts_at_def

text \<open>
  Claim C8. When a batch of offers leaves the pending queue empty that was not empty
  before, \<open>Shutdown\<close> is closed; every offer after that, in the same call of
  \<open>ResourceOffers\<close> or in a later one, is declined with \<open>LongFilter\<close>, which refuses for
  1000 seconds, and the state no longer changes.
\<close>

theorem ResourceOffers_declines_with_LongFilter_once_queue_is_empty:
  assumes "ResourceOffers s earlier = Ok (s', calls)" and "0 < tasks_len s" and "tasks_len s' = 0"
  shows "Shutdown s' \<and>
         ResourceOffers s' later =
           Ok (s', map (\<lambda>offer. DeclineOffer (offer_id offer) LongFilter) later) \<and>
         ResourceOffers s (earlier @ later) =
           Ok (s', calls @ map (\<lambda>offer. DeclineOffer (offer_id offer) LongFilter) later) \<and>
         RefuseSeconds LongFilter = 1000"
proof -
  have sh: "Shutdown s'"
    using binpack_offers_shutdown[OF assms(1)[unfolded ResourceOffers_def]] assms(2,3) by simp
  then show ?thesis
    using assms(1)
    by (simp add: ResourceOffers_def binpack_offers_closed binpack_offers_append)
qed

text \<open>
  The first scenario of the specification: the offer \<open>{cpu: 4, mem: 8192, watts: 80}\<close>
  and one task \<open>{cpu: 4, mem: 8192, watts: 80, instances: 1}\<close>. One instance is
  launched, the queue is empty, \<open>Shutdown\<close> is closed and the next offer is declined
  with \<open>LongFilter\<close>.
\<close>

lemma scenario_exact_fit:
  "\<exists>s'. ResourceOffers
      (NewBinPackSortedWatts (sort_key Watts) ((\<lambda>a. 0)(0 := 1)) [task_of ''t'' 4 8192 80 0] False)
      [offer_of ''o1'' 4 8192 80] =
        Ok (s', [LaunchTasks ''o1''
          [\<lparr>ti_name = ''t-1'', ti_task_id = ''electron-t-1'', ti_slave_id = ''agent-1'',
            ti_resources = [(''cpus'', 4), (''mem'', 8192), (''watts'', 80)],
            ti_command = ''cmd'', ti_image = ''img''\<rparr>] DefaultFilter]) \<and>
      tasks_len s' = 0"
  by (simp add: binpack_eval)

theorem ResourceOffers_declines_with_LongFilter_witness:
  "0 < tasks_len
     (NewBinPackSortedWatts (sort_key Watts) ((\<lambda>a. 0)(0 := 1)) [task_of ''t'' 4 8192 80 0] False) \<and>
   (\<exists>s'. ResourceOffers
      (NewBinPackSortedWatts (sort_key Watts) ((\<lambda>a. 0)(0 := 1)) [task_of ''t'' 4 8192 80 0] False)
      [offer_of ''o1'' 4 8192 80] =
        Ok (s', [LaunchTasks ''o1''
          [\<lparr>ti_name = ''t-1'', ti_task_id = ''electron-t-1'', ti_slave_id = ''agent-1'',
            ti_resources = [(''cpus'', 4), (''mem'', 8192), (''watts'', 80)],
            ti_command = ''cmd'', ti_image = ''img''\<rparr>] DefaultFilter]) \<and>
      tasks_len s' = 0 \<and> Shutdown s' \<and>
      ResourceOffers s' [offer_of ''o2'' 4 8192 80] = Ok (s', [DeclineOffer ''o2'' LongFilter]))"
proof -
  let ?s = "NewBinPackSortedWatts (sort_key Watts) ((\<lambda>a. 0)(0 := 1)) [task_of ''t'' 4 8192 80 0] False"
  have pos: "0 < tasks_len ?s" by (simp add: NewBinPackSortedWatts_def)
  from scenario_exact_fit obtain s' where
    run: "ResourceOffers ?s [offer_of ''o1'' 4 8192 80] =
        Ok (s', [LaunchTasks ''o1''
          [\<lparr>ti_name = ''t-1'', ti_task_id = ''electron-t-1'', ti_slave_id = ''agent-1'',
            ti_resources = [(''cpus'', 4), (''mem'', 8192), (''watts'', 80)],
            ti_command = ''cmd'', ti_image = ''img''\<rparr>] DefaultFilter])"
    and empty: "tasks_len s' = 0" by blast
  from ResourceOffers_declines_with_LongFilter_once_queue_is_empty
         [OF run pos empty, of "[offer_of ''o2'' 4 8192 80]"]
  have "Shutdown s'"
    and "ResourceOffers s' [offer_of ''o2'' 4 8192 80] = Ok (s', [DeclineOffer ''o2'' LongFilter])"
    by (simp_all add: offer_of_def)
  with pos run empty show ?thesis by blast
qed

text \<open>
  Claim C4 describes the loop as visiting every task of the queue. The second scenario
  of the specification does run as the claim says: for the offer
  \<open>{cpu: 10, mem: 20000, watts: 200}\<close> and the task
  \<open>{cpu: 2, mem: 4000, watts: 40, instances: 10}\<close>, five instances are launched and five
  remain. But the loop ranges over the slice as it was when the loop began, while a
  removal shifts the elements of the same array. With the queue \<open>[A, B]\<close>, one instance
  each, and an offer that holds both, the removal of \<open>A\<close> moves \<open>B\<close> to index 0, the loop
  finds the stale copy of \<open>B\<close> at index 1, launches it, and the removal
  \<open>s.tasks[2:]\<close> on a slice of length 1 panics. With the queue \<open>[A, B, C]\<close> the loop
  launches \<open>A\<close> and \<open>C\<close> and never visits \<open>B\<close>, which the offer could hold.
\<close>

theorem ResourceOffers_skips_the_task_behind_a_removed_one:
  "(\<exists>s' tis. ResourceOffers
      (NewBinPackSortedWatts (sort_key Watts) ((\<lambda>a. 0)(0 := 10)) [task_of ''t'' 2 4000 40 0] False)
      [offer_of ''o1'' 10 20000 200] = Ok (s', [LaunchTasks ''o1'' tis DefaultFilter]) \<and>
      length tis = 5 \<and> instances s' 0 = 5 \<and> map Name (tasks s') = [''t'']) \<and>
   ResourceOffers
      (NewBinPackSortedWatts (sort_key Watts) ((\<lambda>a. 0)(0 := 1, 1 := 1))
         [task_of ''A'' 1 1 1 0, task_of ''B'' 1 1 2 1] False)
      [offer_of ''o1'' 10 100 100] = Panic (SliceBoundsOutOfRange 2 1) \<and>
   (\<exists>s' tis. ResourceOffers
      (NewBinPackSortedWatts (sort_key Watts) ((\<lambda>a. 0)(0 := 1, 1 := 1, 2 := 1))
         [task_of ''A'' 1 1 1 0, task_of ''B'' 1 1 2 1, task_of ''C'' 1 1 3 2] False)
      [offer_of ''o1'' 10 100 100] = Ok (s', [LaunchTasks ''o1'' tis DefaultFilter]) \<and>
      map ti_name tis = [''A-1'', ''C-1''] \<and> map Name (tasks s') = [''B''] \<and>
      instances s' 1 = 1)"
  by (simp add: binpack_eval)

section \<open>Properties of \<open>MaxGreedyMins\<close>\<close>













lemmas consume_eval =
  ConsumeOffers_def ConsumeOffers_offer_def consume_instances.simps CheckFit_def takeOffer_def
  fatal_watts_def WattsToConsider_def HostMismatch_def consume_vars_init_def
  OfferAgg_def sum_named_def Let_def decrement_Instances_def remove_if_scheduled_def
  remove_by_append_def close_Shutdown_def baseScheduler_of_def task_of_def offer_of_def
  class_task_def class_offer_def tasks_def upt_rec

section \<open>Unknown power classes\<close>

text \<open>
  Claim C3 asks for a fatal \<open>UnknownPowerClass\<close> when the class of the offer's node has
  no entry in the task's \<open>ClassToWatts\<close>. The task here knows the class \<open>A\<close> (40 watts) and
  declares 100 watts; the offer comes from a node of class \<open>B\<close> with 50 watts.
  \<open>BPSWClassMapWatts\<close> reads \<open>task.ClassToWatts["B"]\<close>, which is 0 in Go, finds that the
  task fits and launches it. \<open>MaxGreedyMins\<close> in class-map mode ends the process when
  \<open>def.WattsToConsider\<close> returns the error (that function is modelled from the
  specification).
\<close>

theorem ClassMapWatts_launches_task_of_unknown_class:
  "(\<exists>s'. ResourceOffers_ClassMapWatts
      (NewBinPackSortedWatts (sort_key Watts) ((\<lambda>a. 0)(0 := 1)) [class_task] False)
      [class_offer ''B'' 50] =
        Ok (s', [LaunchTasks ''o1''
          [\<lparr>ti_name = ''t-1'', ti_task_id = ''electron-t-1'', ti_slave_id = ''agent-1'',
            ti_resources = [(''cpus'', 1), (''mem'', 1), (''watts'', 100)],
            ti_command = ''cmd'', ti_image = ''img''\<rparr>] DefaultFilter]) \<and>
      tasks_len s' = 0) \<and>
   ConsumeOffers (sort_key Watts)
      (baseScheduler_of ((\<lambda>a. 0)(0 := 1)) [class_task] True True)
      [class_offer ''B'' 50] = Panic (Fatal ''UnknownPowerClass'')"
  by (simp add: binpack_eval consume_eval)

section \<open>Launches stay within the offer\<close>







end
